theory Spec2Isabelle
  imports Main
begin

section \<open>The Move runtime: abort codes, checked integers, vectors\<close>

text \<open>
  An abort of a Move function is a value. The constructors are the abort constants of the
  modules \<open>prototype::arena_pvp\<close>, \<open>prototype::battle\<close>, \<open>pokemon::pokemon_v1\<close> and
  \<open>pokemon::stats\<close>, followed by the aborts of the standard library and of the virtual
  machine: \<open>option::fill\<close> on an occupied option, \<open>option::borrow\<close> on an empty one,
  \<open>vector::borrow\<close> out of range, and integer overflow or division by zero.
\<close>

datatype error =
    EArenaNotReady
  | EArenaOver
  | EPlayerOneNotReady
  | EMoveAlreadySubmitted
  | EUnknownSender
  | EInvalidCommitment
  | EYouCantTrickMe
  | EWrongMove
  | EIncorrectRandomValue
  | EIncorrectMovePower
  | EIncorrectLevel
  | EOptionIsSet
  | EOptionNotSet
  | EIndexOutOfBounds
  | EArithmetic

text \<open>Sequencing of fallible steps: the first abort ends the function.\<close>

definition and_then :: "error + 'a \<Rightarrow> ('a \<Rightarrow> error + 'b) \<Rightarrow> error + 'b" where
  "and_then r f = (case r of Inl e \<Rightarrow> Inl e | Inr x \<Rightarrow> f x)"

text \<open>
  \<open>u8\<close> and \<open>u64\<close> values are natural numbers; Move's arithmetic does not wrap, it aborts
  when a result leaves the type, and on division by zero.
\<close>

definition u8_max :: nat where
  "u8_max = 255"

definition u64_max :: nat where
  "u64_max = 18446744073709551615"

definition checked_add :: "nat \<Rightarrow> nat \<Rightarrow> nat \<Rightarrow> error + nat" where
  "checked_add bound x y = (if x + y \<le> bound then Inr (x + y) else Inl EArithmetic)"

definition checked_mul :: "nat \<Rightarrow> nat \<Rightarrow> nat \<Rightarrow> error + nat" where
  "checked_mul bound x y = (if x * y \<le> bound then Inr (x * y) else Inl EArithmetic)"

definition checked_div :: "nat \<Rightarrow> nat \<Rightarrow> error + nat" where
  "checked_div x y = (if y = 0 then Inl EArithmetic else Inr (x div y))"

text \<open>\<open>vector::borrow\<close>: reading past the end aborts.\<close>

definition borrow :: "'a list \<Rightarrow> nat \<Rightarrow> error + 'a" where
  "borrow v i = (if i < length v then Inr (v ! i) else Inl EIndexOutOfBounds)"

text \<open>Byte vectors and addresses (an address is its 32 bytes).\<close>

type_synonym bytes = "nat list"
type_synonym address = "nat list"

section \<open>Module \<open>pokemon::stats\<close>\<close>

record stats =
  hp :: nat
  attack :: nat
  defence :: nat
  special_attack :: nat
  special_defence :: nat
  speed :: nat
  level :: nat
  types :: "nat list"

definition SCALING_FACTOR :: nat where
  "SCALING_FACTOR = 100000000"

definition stats_new ::
  "nat \<Rightarrow> nat \<Rightarrow> nat \<Rightarrow> nat \<Rightarrow> nat \<Rightarrow> nat \<Rightarrow> nat \<Rightarrow> nat list \<Rightarrow> error + stats" where
  "stats_new hp0 attack0 defence0 special_attack0 special_defence0 speed0 level0 types0 =
     (if \<not> level0 \<le> 100 then Inl EIncorrectLevel
      else and_then (checked_mul u64_max hp0 SCALING_FACTOR) (\<lambda>h.
        Inr \<lparr>hp = h, attack = attack0, defence = defence0,
             special_attack = special_attack0, special_defence = special_defence0,
             speed = speed0, level = level0, types = types0\<rparr>))"

definition decrease_hp :: "stats \<Rightarrow> nat \<Rightarrow> stats" where
  "decrease_hp stat v =
     (if v > hp stat then stat\<lparr>hp := 0\<rparr> else stat\<lparr>hp := hp stat - v\<rparr>)"

section \<open>Module \<open>pokemon::pokemon_v1\<close>\<close>

text \<open>
  \<open>damage\<close>, with every intermediate product, sum and quotient of the source checked
  against \<open>u64\<close> in the order in which Move evaluates them (\<open>*\<close> and \<open>/\<close> associate to the
  left). \<open>eff_val\<close> is the constant 1 of the source. \<open>physical_damage\<close> reads the
  defender's defence through the getter the source calls \<open>stats::defense\<close>; the stats
  module spells the field and its getter \<open>defence\<close>.
\<close>

definition damage :: "nat \<Rightarrow> nat \<Rightarrow> nat \<Rightarrow> nat \<Rightarrow> nat \<Rightarrow> nat \<Rightarrow> error + nat" where
  "damage lvl atk dfc move_power random scaling =
     and_then (checked_mul u64_max 2 lvl) (\<lambda>t1.
     and_then (checked_mul u64_max t1 1) (\<lambda>t2.
     and_then (checked_div t2 5) (\<lambda>t3.
     and_then (checked_add u64_max t3 2) (\<lambda>lvl_mod.
     and_then (checked_mul u64_max scaling atk) (\<lambda>t4.
     and_then (checked_div t4 dfc) (\<lambda>atk_def.
     and_then (checked_mul u64_max lvl_mod move_power) (\<lambda>t5.
     and_then (checked_mul u64_max t5 atk_def) (\<lambda>t6.
     and_then (checked_div t6 50) (\<lambda>t7.
     and_then (checked_mul u64_max 2 scaling) (\<lambda>t8.
     and_then (checked_add u64_max t7 t8) (\<lambda>result.
     and_then (checked_mul u64_max scaling random) (\<lambda>t9.
     and_then (checked_div t9 255) (\<lambda>rnd_val.
     and_then (checked_mul u64_max result rnd_val) (\<lambda>t10.
     and_then (checked_mul u64_max t10 1) (\<lambda>t11.
     checked_div t11 scaling)))))))))))))))"

definition physical_damage :: "stats \<Rightarrow> stats \<Rightarrow> nat \<Rightarrow> nat \<Rightarrow> error + nat" where
  "physical_damage attacker defender move_power random =
     (if \<not> (random \<ge> 217 \<and> random \<le> 255) then Inl EIncorrectRandomValue
      else if \<not> move_power > 0 then Inl EIncorrectMovePower
      else damage (level attacker) (attack attacker) (defence defender)
             move_power random SCALING_FACTOR)"

section \<open>Module \<open>prototype::battle\<close>\<close>

definition STAB_BONUS :: nat where
  "STAB_BONUS = 15"

definition MOVES_POWER :: "nat list" where
  "MOVES_POWER = [40, 60, 80]"

definition MOVES_EFFECTIVENESS :: "nat list list" where
  "MOVES_EFFECTIVENESS = [[10, 10, 20], [10, 10, 5], [5, 20, 10]]"

definition EFF_SCALING :: nat where
  "EFF_SCALING = 10"

text \<open>
  \<open>battle::attack\<close>. The source mutates \<open>defender\<close> in place; the model returns the new
  defender. The \<open>debug\<close> flag only prints (the product it prints is the one computed on
  the next line of the source), so it has no branch of its own here.
\<close>

definition battle_attack :: "stats \<Rightarrow> stats \<Rightarrow> nat \<Rightarrow> nat \<Rightarrow> bool \<Rightarrow> error + stats" where
  "battle_attack attacker defender mv rng debug =
     (if \<not> mv < 3 then Inl EWrongMove
      else
        and_then (borrow (types attacker) 0) (\<lambda>attacker_type.
        and_then (borrow (types defender) 0) (\<lambda>defender_type.
        and_then (borrow MOVES_POWER mv) (\<lambda>move_power.
        and_then (physical_damage attacker defender move_power rng) (\<lambda>raw_damage.
        and_then (borrow MOVES_EFFECTIVENESS mv) (\<lambda>move_effectiveness.
        and_then (borrow move_effectiveness defender_type) (\<lambda>effectiveness.
        and_then (checked_mul u64_max raw_damage effectiveness) (\<lambda>t1.
        and_then (checked_div t1 EFF_SCALING) (\<lambda>raw1.
        and_then
          (if mv = attacker_type
           then and_then (checked_mul u64_max raw1 STAB_BONUS) (\<lambda>t2.
                  checked_div t2 EFF_SCALING)
           else Inr raw1) (\<lambda>raw2.
        Inr (decrease_hp defender raw2)))))))))))"

section \<open>Module \<open>prototype::arena_pvp\<close>: seeds and stat generation\<close>

text \<open>
  The hash \<open>sui::hash::blake2b256\<close> is a parameter \<open>H\<close> of every function that uses it.
\<close>

definition derive :: "(bytes \<Rightarrow> bytes) \<Rightarrow> bytes \<Rightarrow> nat \<Rightarrow> bytes" where
  "derive H seed path = H (seed @ [path])"

text \<open>\<open>(value % 50) + 50\<close> is at most 99, so the \<open>u8\<close> sum cannot abort.\<close>

definition smooth :: "nat \<Rightarrow> nat" where
  "smooth v = (let value = ((v mod 50) + 50) div 2 in if value < 10 then 10 else value)"

definition generate_stats :: "bytes \<Rightarrow> error + stats" where
  "generate_stats seed =
     (let level0 = 10 in
      and_then (borrow seed 0) (\<lambda>b0.
      and_then (checked_add u8_max 10 (smooth b0)) (\<lambda>h.
      and_then (borrow seed 1) (\<lambda>b1.
      and_then (borrow seed 2) (\<lambda>b2.
      and_then (borrow seed 3) (\<lambda>b3.
      and_then (borrow seed 4) (\<lambda>b4.
      and_then (borrow seed 5) (\<lambda>b5.
      and_then (borrow seed 6) (\<lambda>b6.
      stats_new h (smooth b1) (smooth b2) (smooth b3) (smooth b4) (smooth b5)
        level0 [b6 mod 3])))))))))"

text \<open>\<open>(value % (255 - 217)) + 217\<close> is at most 254, so the \<open>u8\<close> sum cannot abort.\<close>

definition hit_rng :: "(bytes \<Rightarrow> bytes) \<Rightarrow> bytes \<Rightarrow> nat \<Rightarrow> nat \<Rightarrow> error + nat" where
  "hit_rng H seed path rnd =
     and_then (borrow (derive H seed path) rnd) (\<lambda>value.
       Inr ((value mod (255 - 217)) + 217))"

section \<open>Module \<open>prototype::arena_pvp\<close>: the arena\<close>

text \<open>
  The model follows \<open>packages/game-v1/sources/arena_pvp.move\<close>. The second copy of the
  module among the sources differs in syntax only (method calls, and \<open>option::fill\<close>
  where this one assigns \<open>option::some\<close> to an option it has just checked to be empty).

  \<open>option::fill\<close> and \<open>option::borrow\<close> of the standard library:
\<close>

definition option_fill :: "'a option \<Rightarrow> 'a \<Rightarrow> error + 'a option" where
  "option_fill t e = (case t of Some _ \<Rightarrow> Inl EOptionIsSet | None \<Rightarrow> Inr (Some e))"

definition option_borrow :: "'a option \<Rightarrow> error + 'a" where
  "option_borrow t = (case t of None \<Rightarrow> Inl EOptionNotSet | Some x \<Rightarrow> Inr x)"

record player =
  starting_hp :: nat
  stats :: stats
  account :: address
  next_attack :: "bytes option"
  next_round :: nat

text \<open>The field \<open>id\<close> of the source is \<open>uid\<close> here.\<close>

record arena =
  uid :: address
  seed :: bytes
  round :: nat
  player_one :: player
  player_two :: "player option"
  winner :: "address option"

datatype event =
    ArenaCreated address
  | PlayerJoined address
  | PlayerCommit address
  | PlayerReveal address nat
  | RoundResult address nat nat

text \<open>
  \<open>new_\<close> of the source, named \<open>new_arena\<close>: \<open>addr\<close> is the fresh object address the
  seed is hashed from (its BCS encoding is its bytes), \<open>id0\<close> the identifier that
  \<open>object::new\<close> returns, \<open>sender\<close> the sender of the transaction.
\<close>

definition new_arena :: "(bytes \<Rightarrow> bytes) \<Rightarrow> address \<Rightarrow> address \<Rightarrow> address \<Rightarrow> error + arena" where
  "new_arena H addr id0 sender =
     (let seed0 = H addr in
      and_then (generate_stats (derive H seed0 0)) (\<lambda>player_stats.
        Inr \<lparr>uid = id0, seed = seed0, round = 0,
             player_one = \<lparr>starting_hp = hp player_stats, stats = player_stats,
                           account = sender, next_attack = None, next_round = 0\<rparr>,
             player_two = None, winner = None\<rparr>))"

definition new ::
  "(bytes \<Rightarrow> bytes) \<Rightarrow> address \<Rightarrow> address \<Rightarrow> address \<Rightarrow> error + (arena \<times> event list)" where
  "new H addr id0 sender =
     and_then (new_arena H addr id0 sender) (\<lambda>a. Inr (a, [ArenaCreated (uid a)]))"

definition join :: "(bytes \<Rightarrow> bytes) \<Rightarrow> arena \<Rightarrow> address \<Rightarrow> error + (arena \<times> event list)" where
  "join H a sender =
     (if \<not> sender \<noteq> account (player_one a) then Inl EYouCantTrickMe
      else
        and_then (generate_stats (derive H (seed a) 1)) (\<lambda>st.
        and_then (option_fill (player_two a)
                    \<lparr>starting_hp = hp st, stats = st, account = sender,
                     next_attack = None, next_round = 0\<rparr>) (\<lambda>p2.
        Inr (a\<lparr>player_two := p2\<rparr>, [PlayerJoined (uid a)]))))"

definition commit :: "arena \<Rightarrow> bytes \<Rightarrow> address \<Rightarrow> error + (arena \<times> event list)" where
  "commit a commitment sender =
     (if \<not> winner a = None then Inl EArenaOver
      else if \<not> player_two a \<noteq> None then Inl EArenaNotReady
      else if sender = account (player_one a) then
        (if \<not> next_attack (player_one a) = None then Inl EMoveAlreadySubmitted
         else Inr (a\<lparr>player_one := (player_one a)\<lparr>next_attack := Some commitment\<rparr>\<rparr>,
                   [PlayerCommit (uid a)]))
      else
        and_then (option_borrow (player_two a)) (\<lambda>p2.
          if sender = account p2 then
            (if \<not> next_attack p2 = None then Inl EMoveAlreadySubmitted
             else Inr (a\<lparr>player_two := Some (p2\<lparr>next_attack := Some commitment\<rparr>)\<rparr>,
                       [PlayerCommit (uid a)]))
          else Inl EUnknownSender))"

definition is_player_one :: "arena \<Rightarrow> address \<Rightarrow> bool" where
  "is_player_one a p = (p = account (player_one a))"

definition is_player_two :: "arena \<Rightarrow> address \<Rightarrow> bool" where
  "is_player_two a p = (case player_two a of None \<Rightarrow> False | Some p2 \<Rightarrow> p = account p2)"

text \<open>
  The body of \<open>reveal\<close> from the two sequencing assertions on: it works on the two
  mutable references \<open>attacker\<close> and \<open>defender\<close> and on \<open>arena.round\<close>, \<open>arena.winner\<close>.
  The model returns the new attacker, the new defender, the new round, the new winner
  and the events. \<open>arena.round + 1\<close> is a \<open>u8\<close> sum each time the source writes it.
\<close>

definition reveal_players ::
  "(bytes \<Rightarrow> bytes) \<Rightarrow> address \<Rightarrow> nat \<Rightarrow> address option \<Rightarrow> player \<Rightarrow> player \<Rightarrow> nat \<Rightarrow> bytes
     \<Rightarrow> error + (player \<times> player \<times> nat \<times> address option \<times> event list)" where
  "reveal_players H aid rnd win attacker defender mv salt =
     (if \<not> next_attack attacker \<noteq> None then Inl EPlayerOneNotReady
      else if \<not> next_round attacker = rnd then Inl EMoveAlreadySubmitted
      else
        (let commitment = H ([mv] @ salt) in
         and_then (option_borrow (next_attack attacker)) (\<lambda>stored.
         if \<not> commitment = stored then Inl EInvalidCommitment
         else
           and_then (hit_rng H commitment 2 rnd) (\<lambda>rng.
           and_then (battle_attack (stats attacker) (stats defender) mv rng False) (\<lambda>ds.
           and_then (checked_add u8_max rnd 1) (\<lambda>r1.
           (let attacker' = attacker\<lparr>next_attack := None, next_round := r1\<rparr>;
                defender' = defender\<lparr>stats := ds\<rparr>
            in
            and_then
              (if next_attack defender' = None
               then and_then (checked_add u8_max rnd 1) (\<lambda>r2.
                      Inr (next_round defender' = r2))
               else Inr False) (\<lambda>next_round_cond.
            (let win' = (if hp (stats defender') = 0 then Some (account attacker')
                         else win)
             in
             and_then
               (if next_round_cond then checked_add u8_max rnd 1 else Inr rnd) (\<lambda>rnd'.
             Inr (attacker', defender', rnd', win',
                  [PlayerReveal aid mv,
                   RoundResult aid (hp (stats attacker')) (hp (stats defender'))])))))))))))"

definition reveal ::
  "(bytes \<Rightarrow> bytes) \<Rightarrow> arena \<Rightarrow> nat \<Rightarrow> bytes \<Rightarrow> address \<Rightarrow> error + (arena \<times> event list)" where
  "reveal H a mv salt sender =
     (if \<not> player_two a \<noteq> None then Inl EArenaNotReady
      else if \<not> winner a = None then Inl EArenaOver
      else
        and_then (option_borrow (player_two a)) (\<lambda>p2.
          if is_player_one a sender then
            and_then (reveal_players H (uid a) (round a) (winner a) (player_one a) p2 mv salt)
              (\<lambda>(attacker', defender', rnd', win', evs).
                 Inr (a\<lparr>round := rnd', player_one := attacker',
                        player_two := Some defender', winner := win'\<rparr>, evs))
          else if is_player_two a sender then
            and_then (reveal_players H (uid a) (round a) (winner a) p2 (player_one a) mv salt)
              (\<lambda>(attacker', defender', rnd', win', evs).
                 Inr (a\<lparr>round := rnd', player_one := defender',
                        player_two := Some attacker', winner := win'\<rparr>, evs))
          else Inl EUnknownSender))"

section \<open>Transactions\<close>

text \<open>
  The three entry functions that mutate an existing arena, as operations. A transaction
  that aborts changes nothing: the arena after it is the arena before it.
\<close>

datatype op =
    Join address
  | Commit address bytes
  | Reveal address nat bytes

fun run :: "(bytes \<Rightarrow> bytes) \<Rightarrow> arena \<Rightarrow> op \<Rightarrow> error + (arena \<times> event list)" where
  "run H a (Join sender) = join H a sender"
| "run H a (Commit sender commitment) = commit a commitment sender"
| "run H a (Reveal sender mv salt) = reveal H a mv salt sender"

definition apply_tx :: "(bytes \<Rightarrow> bytes) \<Rightarrow> arena \<Rightarrow> op \<Rightarrow> arena" where
  "apply_tx H a x = (case run H a x of Inl e \<Rightarrow> a | Inr (a', evs) \<Rightarrow> a')"

definition apply_all :: "(bytes \<Rightarrow> bytes) \<Rightarrow> arena \<Rightarrow> op list \<Rightarrow> arena" where
  "apply_all H a xs = foldl (apply_tx H) a xs"

text \<open>The arenas that \<open>new\<close> creates and the successful transactions lead to.\<close>

inductive reachable :: "(bytes \<Rightarrow> bytes) \<Rightarrow> arena \<Rightarrow> bool" for H :: "bytes \<Rightarrow> bytes" where
  reachable_new: "new H addr id0 sender = Inr (a, evs) \<Longrightarrow> reachable H a"
| reachable_run: "reachable H a \<Longrightarrow> run H a x = Inr (a', evs) \<Longrightarrow> reachable H a'"

text \<open>A stand-in for the hash, with 32 bytes of output, to run the model on.\<close>

definition toy_hash :: "bytes \<Rightarrow> bytes" where
  "toy_hash bs = replicate 32 (sum_list bs mod 256)"

section \<open>The documented damage formula\<close>

text \<open>
  The formula as the specification writes it, over unbounded natural numbers, every
  division truncating, in the documented order: \<open>levelMod\<close>, \<open>atkDefRatio\<close>, \<open>base\<close>,
  \<open>randomFactor\<close>, \<open>raw\<close>, then the effectiveness entry for (move type, defender type)
  over the effectiveness scaling 10, then the same-type bonus 15/10 when the move type
  is the attacker's type. The move power is 40, 60 or 80 by move index.
\<close>

definition doc_move_power :: "nat \<Rightarrow> nat" where
  "doc_move_power mv = (if mv = 0 then 40 else if mv = 1 then 60 else 80)"

definition doc_damage :: "stats \<Rightarrow> stats \<Rightarrow> nat \<Rightarrow> nat \<Rightarrow> nat" where
  "doc_damage attacker defender mv randomByte =
     (let levelMod = (2 * level attacker * 1 div 5) + 2;
          atkDefRatio = (SCALING_FACTOR * attack attacker) div defence defender;
          base = (levelMod * doc_move_power mv * atkDefRatio div 50) + 2 * SCALING_FACTOR;
          randomFactor = (SCALING_FACTOR * randomByte) div 255;
          raw = base * randomFactor div SCALING_FACTOR;
          scaled = raw * (MOVES_EFFECTIVENESS ! mv ! (types defender ! 0)) div 10
      in if mv = types attacker ! 0 then scaled * 15 div 10 else scaled)"

section \<open>Attacker and defender of a reveal\<close>

text \<open>
  The two players \<open>reveal\<close> binds to \<open>attacker\<close> and \<open>defender\<close> for a sender: player one
  is tested first, an unknown sender has neither.
\<close>

definition attacker_of :: "arena \<Rightarrow> address \<Rightarrow> player option" where
  "attacker_of a sender =
     (if is_player_one a sender then Some (player_one a)
      else if is_player_two a sender then player_two a
      else None)"

definition defender_of :: "arena \<Rightarrow> address \<Rightarrow> player option" where
  "defender_of a sender =
     (if is_player_one a sender then player_two a
      else if is_player_two a sender then Some (player_one a)
      else None)"

section \<open>A concrete game\<close>

text \<open>
  The arenas of one game played with \<open>toy_hash\<close>: Alice creates the arena, Bob joins,
  Bob commits and reveals move 2, Alice commits and reveals move 0 (the round becomes 1),
  Bob commits and reveals move 2 again and wins. \<open>early4\<close> is the arena in which Bob
  has committed again right after his first reveal.
\<close>

definition alice :: address where
  "alice = [1]"

definition bob :: address where
  "bob = [2]"

definition carol :: address where
  "carol = [3]"

definition toy_salt :: bytes where
  "toy_salt = [1, 2, 3, 4]"

definition toy_stats :: "nat \<Rightarrow> nat \<Rightarrow> stats" where
  "toy_stats t h = \<lparr>hp = h, attack = 32, defence = 32, special_attack = 32,
     special_defence = 32, speed = 32, level = 10, types = [t]\<rparr>"

definition toy_player :: "address \<Rightarrow> nat \<Rightarrow> nat \<Rightarrow> bytes option \<Rightarrow> nat \<Rightarrow> player" where
  "toy_player who t h c n = \<lparr>starting_hp = 4200000000, stats = toy_stats t h, account = who,
     next_attack = c, next_round = n\<rparr>"

definition toy_arena :: "nat \<Rightarrow> player \<Rightarrow> player option \<Rightarrow> address option \<Rightarrow> arena" where
  "toy_arena r p1 p2 w = \<lparr>uid = [9], seed = replicate 32 2, round = r, player_one = p1,
     player_two = p2, winner = w\<rparr>"

definition game0 :: arena where
  "game0 = toy_arena 0 (toy_player alice 1 4200000000 None 0) None None"

definition game1 :: arena where
  "game1 = toy_arena 0 (toy_player alice 1 4200000000 None 0)
     (Some (toy_player bob 2 4200000000 None 0)) None"

definition game2 :: arena where
  "game2 = toy_arena 0 (toy_player alice 1 4200000000 None 0)
     (Some (toy_player bob 2 4200000000 (Some (toy_hash (2 # toy_salt))) 0)) None"

definition game3 :: arena where
  "game3 = toy_arena 0 (toy_player alice 1 1020235296 None 0)
     (Some (toy_player bob 2 4200000000 None 1)) None"

definition game4 :: arena where
  "game4 = toy_arena 0 (toy_player alice 1 1020235296 (Some (toy_hash (0 # toy_salt))) 0)
     (Some (toy_player bob 2 4200000000 None 1)) None"

definition game5 :: arena where
  "game5 = toy_arena 1 (toy_player alice 1 1020235296 None 1)
     (Some (toy_player bob 2 2893333340 None 1)) None"

definition game6 :: arena where
  "game6 = toy_arena 1 (toy_player alice 1 1020235296 None 1)
     (Some (toy_player bob 2 2893333340 (Some (toy_hash (2 # toy_salt))) 1)) None"

definition game7 :: arena where
  "game7 = toy_arena 1 (toy_player alice 1 0 None 1)
     (Some (toy_player bob 2 2893333340 None 2)) (Some bob)"

definition early4 :: arena where
  "early4 = toy_arena 0 (toy_player alice 1 1020235296 None 0)
     (Some (toy_player bob 2 4200000000 (Some (toy_hash (1 # toy_salt))) 1)) None"

section \<open>The sender's stored commitment\<close>

definition pending_of :: "arena \<Rightarrow> address \<Rightarrow> bytes option" where
  "pending_of a sender =
     (case attacker_of a sender of None \<Rightarrow> None | Some p \<Rightarrow> next_attack p)"

section \<open>The command \<open>join\<close> of the command line client\<close>

text \<open>
  \<open>joinArena\<close> of \<open>cli/v1/pvp.js\<close>, from the arena it has fetched to the point where
  the rounds start: it looks at \<open>player_two\<close> before it submits anything. \<open>address\<close> is
  the account of the client. The two errors are its two \<open>throw\<close> statements; the
  boolean of the result is its variable \<open>rejoin\<close>. Fetching the object and paying for
  gas are left out.
\<close>

datatype cli_error =
    ArenaIsFull
  | CouldNotJoin error

definition joinArena ::
  "(bytes \<Rightarrow> bytes) \<Rightarrow> arena \<Rightarrow> address \<Rightarrow> cli_error + (bool \<times> arena)" where
  "joinArena H a address =
     (case player_two a of
        Some p2 \<Rightarrow>
          if account p2 \<noteq> address then Inl ArenaIsFull
          else Inr (True, a)
      | None \<Rightarrow>
          (case join H a address of
             Inl e \<Rightarrow> Inl (CouldNotJoin e)
           | Inr (a', evs) \<Rightarrow> Inr (False, a')))"

section \<open>The round counters of the players\<close>

text \<open>
  The relation between the counters that every reachable arena keeps: each present
  player's \<open>next_round\<close> is the arena's round or one more; before player two joins, all
  counters are 0.
\<close>

definition rounds_ok :: "arena \<Rightarrow> bool" where
  "rounds_ok a =
     ((next_round (player_one a) = round a \<or> next_round (player_one a) = round a + 1)
      \<and> (case player_two a of
            None \<Rightarrow> round a = 0 \<and> next_round (player_one a) = 0
          | Some p2 \<Rightarrow> next_round p2 = round a \<or> next_round p2 = round a + 1))"

text \<open>
  The concrete game continued from \<open>early4\<close>: Alice commits and reveals move 0.
\<close>

definition early5 :: arena where
  "early5 = toy_arena 0 (toy_player alice 1 1020235296 (Some (toy_hash (0 # toy_salt))) 0)
     (Some (toy_player bob 2 4200000000 (Some (toy_hash (1 # toy_salt))) 1)) None"

definition early6 :: arena where
  "early6 = toy_arena 0 (toy_player alice 1 1020235296 None 1)
     (Some (toy_player bob 2 2893333340 (Some (toy_hash (1 # toy_salt))) 1)) None"

section \<open>Basic facts about the runtime and the stat generator\<close>

text \<open>The fallback of \<open>smooth\<close> is never taken.\<close>

lemma smooth_eq: "smooth b = (b mod 50 + 50) div 2"
  by (simp add: smooth_def Let_def)

lemma smooth_bounds: "25 \<le> smooth b \<and> smooth b \<le> 49"
  unfolding smooth_eq by presburger

lemma borrow_in_range: "i < length v \<Longrightarrow> borrow v i = Inr (v ! i)"
  by (simp add: borrow_def)

lemma and_then_Inr [simp]: "and_then (Inr x) f = f x"
  by (simp add: and_then_def)

lemma and_then_Inl [simp]: "and_then (Inl e) f = Inl e"
  by (simp add: and_then_def)

lemma scaled_hp_fits: "x \<le> 255 \<Longrightarrow> checked_mul u64_max x SCALING_FACTOR = Inr (x * SCALING_FACTOR)"
proof -
  assume "x \<le> 255"
  then have "x * SCALING_FACTOR \<le> 255 * SCALING_FACTOR" by (rule mult_le_mono1)
  also have "255 * SCALING_FACTOR \<le> u64_max" by (simp add: SCALING_FACTOR_def u64_max_def)
  finally show ?thesis by (simp add: checked_mul_def)
qed

lemma generate_stats_value:
  assumes "7 \<le> length sd"
  shows "generate_stats sd =
    Inr \<lparr>hp = (10 + smooth (sd ! 0)) * SCALING_FACTOR, attack = smooth (sd ! 1),
         defence = smooth (sd ! 2), special_attack = smooth (sd ! 3),
         special_defence = smooth (sd ! 4), speed = smooth (sd ! 5),
         level = 10, types = [sd ! 6 mod 3]\<rparr>"
proof -
  have le: "smooth (sd ! 0) \<le> 49" using smooth_bounds by blast
  have a: "checked_add u8_max 10 (smooth (sd ! 0)) = Inr (10 + smooth (sd ! 0))"
    using le by (simp add: checked_add_def u8_max_def)
  have m: "checked_mul u64_max (10 + smooth (sd ! 0)) SCALING_FACTOR
      = Inr ((10 + smooth (sd ! 0)) * SCALING_FACTOR)"
    using le by (intro scaled_hp_fits) simp
  have b: "borrow sd 0 = Inr (sd ! 0)" "borrow sd 1 = Inr (sd ! 1)" "borrow sd 2 = Inr (sd ! 2)"
    "borrow sd 3 = Inr (sd ! 3)" "borrow sd 4 = Inr (sd ! 4)" "borrow sd 5 = Inr (sd ! 5)"
    "borrow sd 6 = Inr (sd ! 6)"
    using assms by (auto simp: borrow_def)
  show ?thesis
    unfolding generate_stats_def Let_def b and_then_Inr a stats_new_def m by simp
qed

lemma and_then_eq_Inr: "and_then r f = Inr y \<longleftrightarrow> (\<exists>x. r = Inr x \<and> f x = Inr y)"
  by (cases r) simp_all

lemma and_then_eq_Inl:
  "and_then r f = Inl e \<longleftrightarrow> r = Inl e \<or> (\<exists>x. r = Inr x \<and> f x = Inl e)"
  by (cases r) simp_all

lemma checked_add_eq_Inr: "checked_add b x y = Inr z \<longleftrightarrow> x + y \<le> b \<and> z = x + y"
  by (auto simp: checked_add_def)

lemma checked_mul_eq_Inr: "checked_mul b x y = Inr z \<longleftrightarrow> x * y \<le> b \<and> z = x * y"
  by (auto simp: checked_mul_def)

lemma checked_div_eq_Inr: "checked_div x y = Inr z \<longleftrightarrow> y \<noteq> 0 \<and> z = x div y"
  by (auto simp: checked_div_def)

lemma borrow_eq_Inr: "borrow v i = Inr x \<longleftrightarrow> i < length v \<and> x = v ! i"
  by (auto simp: borrow_def)

lemma damage_value:
  assumes "damage lvl atk dfc p r s = Inr z"
  shows "z = ((2 * lvl * 1 div 5 + 2) * p * (s * atk div dfc) div 50 + 2 * s) * (s * r div 255) div s"
  using assms unfolding damage_def and_then_eq_Inr checked_mul_eq_Inr checked_add_eq_Inr
    checked_div_eq_Inr
  by (elim exE conjE) simp

lemma physical_damage_value:
  assumes "physical_damage attacker defender p r = Inr z"
  shows "217 \<le> r \<and> r \<le> 255 \<and> 0 < p
    \<and> z = ((2 * level attacker * 1 div 5 + 2) * p
              * (SCALING_FACTOR * attack attacker div defence defender) div 50
            + 2 * SCALING_FACTOR) * (SCALING_FACTOR * r div 255) div SCALING_FACTOR"
proof -
  from assms have r: "217 \<le> r \<and> r \<le> 255" and p: "0 < p"
    and d: "damage (level attacker) (attack attacker) (defence defender) p r SCALING_FACTOR = Inr z"
    by (auto simp: physical_damage_def split: if_splits)
  show ?thesis using r p damage_value [OF d] by blast
qed

lemma moves_power_nth: "mv < 3 \<Longrightarrow> MOVES_POWER ! mv = doc_move_power mv"
  by (auto simp: MOVES_POWER_def doc_move_power_def less_Suc_eq numeral_3_eq_3)

lemma decrease_hp_eq: "decrease_hp stat v = stat\<lparr>hp := hp stat - v\<rparr>"
  by (simp add: decrease_hp_def)

lemma battle_attack_value:
  assumes "battle_attack attacker defender mv rb dbg = Inr defender'"
  shows "mv < 3 \<and> 217 \<le> rb \<and> rb \<le> 255
    \<and> defender' = decrease_hp defender (doc_damage attacker defender mv rb)"
proof -
  from assms have mv: "mv < 3"
    by (auto simp: battle_attack_def split: if_splits)
  define eff where "eff = MOVES_EFFECTIVENESS ! mv ! (types defender ! 0)"
  have "\<exists>raw_damage. physical_damage attacker defender (MOVES_POWER ! mv) rb = Inr raw_damage
      \<and> defender' = decrease_hp defender
           (if mv = types attacker ! 0
            then raw_damage * eff div EFF_SCALING * STAB_BONUS div EFF_SCALING
            else raw_damage * eff div EFF_SCALING)"
    using assms mv unfolding eff_def
    by (auto simp: battle_attack_def and_then_eq_Inr borrow_eq_Inr checked_mul_eq_Inr
          checked_div_eq_Inr split: if_splits)
  then obtain raw_damage raw1 raw2 where
       pd: "physical_damage attacker defender (MOVES_POWER ! mv) rb = Inr raw_damage"
   and raw1: "raw1 = raw_damage * eff div EFF_SCALING"
   and raw2: "raw2 = (if mv = types attacker ! 0 then raw1 * STAB_BONUS div EFF_SCALING else raw1)"
   and res: "defender' = decrease_hp defender raw2"
    by auto
  note eff = eff_def
  note v = physical_damage_value [OF pd]
  have "raw2 = doc_damage attacker defender mv rb"
    unfolding raw2 raw1 eff doc_damage_def Let_def using v mv
    by (simp add: moves_power_nth EFF_SCALING_def STAB_BONUS_def)
  then show ?thesis using mv v res by simp
qed

section \<open>Generated stats (claims C6 and C9)\<close>

text \<open>
  Claim C6. For every seed of at least seven bytes the stat generator returns stats, each
  of the five non-hp stats (attack, defence, special attack, special defence, speed) lies
  between 10 and 50, and hp is at least \<open>10 * SCALING_FACTOR\<close>.
\<close>

theorem generate_stats_bounds:
  assumes "7 \<le> length sd"
  shows "\<exists>st. generate_stats sd = Inr st
    \<and> 10 \<le> attack st \<and> attack st \<le> 50
    \<and> 10 \<le> defence st \<and> defence st \<le> 50
    \<and> 10 \<le> special_attack st \<and> special_attack st \<le> 50
    \<and> 10 \<le> special_defence st \<and> special_defence st \<le> 50
    \<and> 10 \<le> speed st \<and> speed st \<le> 50
    \<and> 10 * SCALING_FACTOR \<le> hp st"
proof -
  have lo: "10 \<le> smooth x" and hi: "smooth x \<le> 50" for x
    using smooth_bounds [of x] by linarith+
  have h: "10 * SCALING_FACTOR \<le> (10 + smooth (sd ! 0)) * SCALING_FACTOR"
    by (rule mult_le_mono1) simp
  show ?thesis
    unfolding generate_stats_value [OF assms] using lo hi h by simp
qed



theorem generate_stats_bounds_witness:
  "7 \<le> length [200, 49, 50, 0, 255, 99, 8 :: nat]
   \<and> (\<exists>st. generate_stats [200, 49, 50, 0, 255, 99, 8] = Inr st
    \<and> 10 \<le> attack st \<and> attack st \<le> 50
    \<and> 10 \<le> defence st \<and> defence st \<le> 50
    \<and> 10 \<le> special_attack st \<and> special_attack st \<le> 50
    \<and> 10 \<le> special_defence st \<and> special_defence st \<le> 50
    \<and> 10 \<le> speed st \<and> speed st \<le> 50
    \<and> 10 * SCALING_FACTOR \<le> hp st)"
proof -
  have h: "7 \<le> length [200, 49, 50, 0, 255, 99, 8 :: nat]" by simp
  show ?thesis by (rule conjI [OF h generate_stats_bounds [OF h]])
qed

text \<open>
  Claim C9. For every byte \<open>b\<close> the intermediate value \<open>((b mod 50) + 50) / 2\<close> of the
  smoothing function lies in [25, 49], so the test \<open>value < 10\<close> is false, the fallback
  branch returning 10 is never taken and \<open>smooth\<close> returns the intermediate value; every
  generated non-hp stat lies in [25, 49] and hp in
  [\<open>35 * SCALING_FACTOR\<close>, \<open>59 * SCALING_FACTOR\<close>].
\<close>

theorem smooth_tight_range:
  "25 \<le> (b mod 50 + 50) div 2 \<and> (b mod 50 + 50) div 2 \<le> 49
   \<and> \<not> (b mod 50 + 50) div 2 < 10
   \<and> smooth b = (b mod 50 + 50) div 2
   \<and> (7 \<le> length sd \<longrightarrow>
        (\<exists>st. generate_stats sd = Inr st
          \<and> 25 \<le> attack st \<and> attack st \<le> 49
          \<and> 25 \<le> defence st \<and> defence st \<le> 49
          \<and> 25 \<le> special_attack st \<and> special_attack st \<le> 49
          \<and> 25 \<le> special_defence st \<and> special_defence st \<le> 49
          \<and> 25 \<le> speed st \<and> speed st \<le> 49
          \<and> 35 * SCALING_FACTOR \<le> hp st \<and> hp st \<le> 59 * SCALING_FACTOR))"
proof -
  have lo: "25 \<le> smooth x" and hi: "smooth x \<le> 49" for x
    using smooth_bounds [of x] by blast+
  have r: "25 \<le> (b mod 50 + 50) div 2 \<and> (b mod 50 + 50) div 2 \<le> 49"
    using smooth_bounds [of b] unfolding smooth_eq .
  have h1: "35 * SCALING_FACTOR \<le> (10 + smooth (sd ! 0)) * SCALING_FACTOR"
    using lo [of "sd ! 0"] by (intro mult_le_mono1) linarith
  have h2: "(10 + smooth (sd ! 0)) * SCALING_FACTOR \<le> 59 * SCALING_FACTOR"
    using hi [of "sd ! 0"] by (intro mult_le_mono1) linarith
  have g: "7 \<le> length sd \<longrightarrow>
        (\<exists>st. generate_stats sd = Inr st
          \<and> 25 \<le> attack st \<and> attack st \<le> 49
          \<and> 25 \<le> defence st \<and> defence st \<le> 49
          \<and> 25 \<le> special_attack st \<and> special_attack st \<le> 49
          \<and> 25 \<le> special_defence st \<and> special_defence st \<le> 49
          \<and> 25 \<le> speed st \<and> speed st \<le> 49
          \<and> 35 * SCALING_FACTOR \<le> hp st \<and> hp st \<le> 59 * SCALING_FACTOR)"
  proof
    assume len: "7 \<le> length sd"
    show "\<exists>st. generate_stats sd = Inr st
          \<and> 25 \<le> attack st \<and> attack st \<le> 49
          \<and> 25 \<le> defence st \<and> defence st \<le> 49
          \<and> 25 \<le> special_attack st \<and> special_attack st \<le> 49
          \<and> 25 \<le> special_defence st \<and> special_defence st \<le> 49
          \<and> 25 \<le> speed st \<and> speed st \<le> 49
          \<and> 35 * SCALING_FACTOR \<le> hp st \<and> hp st \<le> 59 * SCALING_FACTOR"
      unfolding generate_stats_value [OF len] using lo hi h1 h2 by simp
  qed
  have n: "\<not> (b mod 50 + 50) div 2 < 10" using r by linarith
  show ?thesis using r n g smooth_eq [of b] by blast
qed


theorem smooth_tight_range_witness:
  "25 \<le> ((249::nat) mod 50 + 50) div 2 \<and> ((249::nat) mod 50 + 50) div 2 \<le> 49
   \<and> \<not> ((249::nat) mod 50 + 50) div 2 < 10
   \<and> smooth 249 = (249 mod 50 + 50) div 2
   \<and> 7 \<le> length [200, 49, 50, 0, 255, 99, 8 :: nat]
   \<and> (\<exists>st. generate_stats [200, 49, 50, 0, 255, 99, 8] = Inr st
          \<and> 25 \<le> attack st \<and> attack st \<le> 49
          \<and> 25 \<le> defence st \<and> defence st \<le> 49
          \<and> 25 \<le> special_attack st \<and> special_attack st \<le> 49
          \<and> 25 \<le> special_defence st \<and> special_defence st \<le> 49
          \<and> 25 \<le> speed st \<and> speed st \<le> 49
          \<and> 35 * SCALING_FACTOR \<le> hp st \<and> hp st \<le> 59 * SCALING_FACTOR)"
proof -
  have h: "7 \<le> length [200, 49, 50, 0, 255, 99, 8 :: nat]" by simp
  show ?thesis
    using smooth_tight_range [of 249 "[200, 49, 50, 0, 255, 99, 8]"] h by blast
qed

section \<open>Successful reveals\<close>

lemma option_borrow_eq_Inr: "option_borrow t = Inr x \<longleftrightarrow> t = Some x"
  by (cases t) (auto simp: option_borrow_def)

lemma hit_rng_eq_Inr:
  "hit_rng H sd path rnd = Inr r \<longleftrightarrow>
     rnd < length (derive H sd path) \<and> r = derive H sd path ! rnd mod 38 + 217"
  by (auto simp: hit_rng_def and_then_eq_Inr borrow_eq_Inr)

lemma reveal_players_Inr:
  assumes "reveal_players H aid rnd win att dfn mv salt = Inr (att', dfn', rnd', win', evs)"
  shows "next_attack att = Some (H ([mv] @ salt))"
    and "next_round att = rnd"
    and "rnd + 1 \<le> 255"
    and "\<exists>rng ds. hit_rng H (H ([mv] @ salt)) 2 rnd = Inr rng
           \<and> battle_attack (stats att) (stats dfn) mv rng False = Inr ds
           \<and> dfn' = dfn\<lparr>stats := ds\<rparr>"
    and "att' = att\<lparr>next_attack := None, next_round := rnd + 1\<rparr>"
    and "rnd' = (if next_attack dfn = None \<and> next_round dfn = rnd + 1 then rnd + 1 else rnd)"
    and "win' = (if hp (stats dfn') = 0 then Some (account att) else win)"
    and "evs = [PlayerReveal aid mv, RoundResult aid (hp (stats att')) (hp (stats dfn'))]"
  using assms
  unfolding reveal_players_def Let_def
  by (auto simp: and_then_eq_Inr option_borrow_eq_Inr checked_add_eq_Inr u8_max_def
        split: if_splits)

lemma reveal_Inr:
  assumes "reveal H a mv salt sender = Inr (a', evs)"
  shows "\<exists>att dfn att' dfn' rnd' win'.
      player_two a \<noteq> None \<and> winner a = None
    \<and> attacker_of a sender = Some att \<and> defender_of a sender = Some dfn
    \<and> reveal_players H (uid a) (round a) (winner a) att dfn mv salt
        = Inr (att', dfn', rnd', win', evs)
    \<and> attacker_of a' sender = Some att' \<and> defender_of a' sender = Some dfn'
    \<and> round a' = rnd' \<and> winner a' = win'
    \<and> a' = (if is_player_one a sender
             then a\<lparr>round := rnd', player_one := att', player_two := Some dfn', winner := win'\<rparr>
             else a\<lparr>round := rnd', player_one := dfn', player_two := Some att', winner := win'\<rparr>)"
proof -
  from assms obtain p2 where p2: "player_two a = Some p2" and w: "winner a = None"
    by (auto simp: reveal_def split: if_splits)
  show ?thesis
  proof (cases "is_player_one a sender")
    case True
    with assms p2 w obtain att' dfn' rnd' win' where
      rp: "reveal_players H (uid a) (round a) (winner a) (player_one a) p2 mv salt
            = Inr (att', dfn', rnd', win', evs)"
      and a': "a' = a\<lparr>round := rnd', player_one := att', player_two := Some dfn', winner := win'\<rparr>"
      by (auto simp: reveal_def option_borrow_def and_then_eq_Inr split: if_splits)
    have acc: "account att' = account (player_one a)"
      using reveal_players_Inr(5) [OF rp] by simp
    show ?thesis
      using True p2 w rp a' acc
      by (simp add: attacker_of_def defender_of_def is_player_one_def)
  next
    case False
    with assms p2 w have two: "is_player_two a sender"
      by (auto simp: reveal_def option_borrow_def split: if_splits)
    with False assms p2 w obtain att' dfn' rnd' win' where
      rp: "reveal_players H (uid a) (round a) (winner a) p2 (player_one a) mv salt
            = Inr (att', dfn', rnd', win', evs)"
      and a': "a' = a\<lparr>round := rnd', player_one := dfn', player_two := Some att', winner := win'\<rparr>"
      by (auto simp: reveal_def option_borrow_def and_then_eq_Inr split: if_splits)
    have acc: "account att' = account p2"
      using reveal_players_Inr(5) [OF rp] by simp
    have acc2: "account dfn' = account (player_one a)"
      using reveal_players_Inr(4) [OF rp] by auto
    show ?thesis
      using False two p2 w rp a' acc acc2
      by (auto simp: attacker_of_def defender_of_def is_player_one_def is_player_two_def)
  qed
qed

section \<open>The concrete game, step by step\<close>

lemmas toy_defs = toy_arena_def toy_player_def toy_stats_def alice_def bob_def carol_def
  toy_salt_def toy_hash_def

lemmas move_defs = and_then_def checked_add_def checked_mul_def checked_div_def borrow_def
  u8_max_def u64_max_def SCALING_FACTOR_def option_borrow_def option_fill_def
  EFF_SCALING_def STAB_BONUS_def MOVES_POWER_def MOVES_EFFECTIVENESS_def Let_def
  sum_list_replicate

lemmas reveal_defs = reveal_def reveal_players_def is_player_one_def is_player_two_def
  hit_rng_def derive_def battle_attack_def physical_damage_def damage_def decrease_hp_def

lemma new_game0: "new toy_hash [2] [9] alice = Inr (game0, [ArenaCreated [9]])"
  by (simp add: new_def new_arena_def generate_stats_def derive_def stats_new_def smooth_def
        game0_def toy_defs move_defs)

lemma join_game0: "run toy_hash game0 (Join bob) = Inr (game1, [PlayerJoined [9]])"
  by (simp add: join_def generate_stats_def derive_def stats_new_def smooth_def
        game0_def game1_def toy_defs move_defs)

lemma commit_game1:
  "run toy_hash game1 (Commit bob (toy_hash (2 # toy_salt))) = Inr (game2, [PlayerCommit [9]])"
  by (simp add: commit_def game1_def game2_def toy_defs move_defs)

lemma reveal_game2:
  "run toy_hash game2 (Reveal bob 2 toy_salt)
     = Inr (game3, [PlayerReveal [9] 2, RoundResult [9] 4200000000 1020235296])"
  by (simp add: reveal_defs game2_def game3_def toy_defs move_defs)

lemma commit_game3:
  "run toy_hash game3 (Commit alice (toy_hash (0 # toy_salt))) = Inr (game4, [PlayerCommit [9]])"
  by (simp add: commit_def game3_def game4_def toy_defs move_defs)

lemma reveal_game4:
  "run toy_hash game4 (Reveal alice 0 toy_salt)
     = Inr (game5, [PlayerReveal [9] 0, RoundResult [9] 1020235296 2893333340])"
  by (simp add: reveal_defs game4_def game5_def toy_defs move_defs)

lemma commit_game5:
  "run toy_hash game5 (Commit bob (toy_hash (2 # toy_salt))) = Inr (game6, [PlayerCommit [9]])"
  by (simp add: commit_def game5_def game6_def toy_defs move_defs)

lemma reveal_game6:
  "run toy_hash game6 (Reveal bob 2 toy_salt)
     = Inr (game7, [PlayerReveal [9] 2, RoundResult [9] 2893333340 0])"
  by (simp add: reveal_defs game6_def game7_def toy_defs move_defs)

lemma commit_early:
  "run toy_hash game3 (Commit bob (toy_hash (1 # toy_salt))) = Inr (early4, [PlayerCommit [9]])"
  by (simp add: commit_def game3_def early4_def toy_defs move_defs)

lemma reachable_game0: "reachable toy_hash game0"
  by (rule reachable_new [OF new_game0])

lemma reachable_game1: "reachable toy_hash game1"
  by (rule reachable_run [OF reachable_game0 join_game0])

lemma reachable_game2: "reachable toy_hash game2"
  by (rule reachable_run [OF reachable_game1 commit_game1])

lemma reachable_game3: "reachable toy_hash game3"
  by (rule reachable_run [OF reachable_game2 reveal_game2])

lemma reachable_game4: "reachable toy_hash game4"
  by (rule reachable_run [OF reachable_game3 commit_game3])

lemma reachable_game5: "reachable toy_hash game5"
  by (rule reachable_run [OF reachable_game4 reveal_game4])

lemma reachable_game6: "reachable toy_hash game6"
  by (rule reachable_run [OF reachable_game5 commit_game5])

lemma reachable_game7: "reachable toy_hash game7"
  by (rule reachable_run [OF reachable_game6 reveal_game6])

lemma reachable_early4: "reachable toy_hash early4"
  by (rule reachable_run [OF reachable_game3 commit_early])

section \<open>The round counter after a reveal\<close>

text \<open>
  What \<open>reveal\<close> does to the round, in every arena, reachable or not. A successful
  reveal leaves the defender's pending commitment and the defender's \<open>next_round\<close> as
  they were, and it increases \<open>round\<close>, by exactly one, if and only if at its end the
  defender has no pending commitment and the defender's \<open>next_round\<close> is the round
  before the reveal plus one; otherwise \<open>round\<close> is unchanged. In particular, when the
  defender has not revealed this round (its \<open>next_round\<close> is still the current round),
  \<open>round\<close> is unchanged. The test on the defender's fields is not the same as "this
  reveal is the second of the round": see the last section.
\<close>

lemma reveal_round_advance:
  assumes "reveal H a mv salt sender = Inr (a', evs)"
  shows "\<exists>dfn dfn'. defender_of a sender = Some dfn \<and> defender_of a' sender = Some dfn'
    \<and> next_attack dfn' = next_attack dfn \<and> next_round dfn' = next_round dfn
    \<and> (round a' = round a + 1
          \<longleftrightarrow> next_attack dfn' = None \<and> next_round dfn' = round a + 1)
    \<and> (round a' \<noteq> round a + 1 \<longrightarrow> round a' = round a)
    \<and> (next_round dfn = round a \<longrightarrow> round a' = round a)"
proof -
  from reveal_Inr [OF assms] obtain att dfn att' dfn' rnd' win' where
       d: "defender_of a sender = Some dfn" and d': "defender_of a' sender = Some dfn'"
   and rp: "reveal_players H (uid a) (round a) (winner a) att dfn mv salt
            = Inr (att', dfn', rnd', win', evs)"
   and r: "round a' = rnd'"
    by blast
  from reveal_players_Inr(4) [OF rp] have same:
    "next_attack dfn' = next_attack dfn" "next_round dfn' = next_round dfn"
    by auto
  from reveal_players_Inr(6) [OF rp] have
    rnd': "rnd' = (if next_attack dfn = None \<and> next_round dfn = round a + 1
                  then round a + 1 else round a)" .
  show ?thesis
    using d d' r rnd' same by auto
qed

text \<open>
  In the concrete game, Alice's reveal in \<open>game4\<close> is the second of round 0 and moves the
  arena to round 1.
\<close>

lemma reveal_round_advance_example:
  "reveal toy_hash game4 0 toy_salt alice
     = Inr (game5, [PlayerReveal [9] 0, RoundResult [9] 1020235296 2893333340])
   \<and> (\<exists>dfn dfn'. defender_of game4 alice = Some dfn \<and> defender_of game5 alice = Some dfn'
    \<and> next_attack dfn' = next_attack dfn \<and> next_round dfn' = next_round dfn
    \<and> (round game5 = round game4 + 1
          \<longleftrightarrow> next_attack dfn' = None \<and> next_round dfn' = round game4 + 1)
    \<and> (round game5 \<noteq> round game4 + 1 \<longrightarrow> round game5 = round game4)
    \<and> (next_round dfn = round game4 \<longrightarrow> round game5 = round game4))
   \<and> round game4 = 0 \<and> round game5 = 1"
proof -
  have step: "reveal toy_hash game4 0 toy_salt alice
     = Inr (game5, [PlayerReveal [9] 0, RoundResult [9] 1020235296 2893333340])"
    using reveal_game4 by simp
  have r: "round game4 = 0 \<and> round game5 = 1"
    by (simp add: game4_def game5_def toy_arena_def)
  show ?thesis
    using step reveal_round_advance [OF step] r by blast
qed

section \<open>The damage formula (claim C5)\<close>

text \<open>
  Claim C5. For all attacker and defender stats, every move index in {0, 1, 2} and every
  random byte in [217, 255], an attack that returns has subtracted from the defender's hp,
  saturating at zero, exactly the documented formula \<open>doc_damage\<close>: \<open>levelMod\<close>,
  \<open>atkDefRatio\<close>, \<open>base\<close>, \<open>randomFactor\<close>, \<open>raw\<close> in this order with truncating
  divisions, then the effectiveness entry at [move type][defender type] over 10, then
  15/10 if and only if the move type is the attacker's type, with move power 40, 60 or 80.
  Nothing else of the defender changes.
\<close>

theorem attack_damage_formula:
  assumes "mv < 3" and "217 \<le> rb" and "rb \<le> 255"
    and "battle_attack attacker defender mv rb dbg = Inr defender'"
  shows "defender' = defender\<lparr>hp := hp defender - doc_damage attacker defender mv rb\<rparr>"
  using battle_attack_value [OF assms(4)] by (simp add: decrease_hp_eq)

theorem attack_damage_formula_witness:
  "(2::nat) < 3 \<and> (217::nat) \<le> 233 \<and> (233::nat) \<le> 255
   \<and> battle_attack (toy_stats 2 4200000000) (toy_stats 1 4200000000) 2 233 False
       = Inr (toy_stats 1 1020235296)
   \<and> toy_stats 1 1020235296
       = (toy_stats 1 4200000000)\<lparr>hp := hp (toy_stats 1 4200000000)
            - doc_damage (toy_stats 2 4200000000) (toy_stats 1 4200000000) 2 233\<rparr>
   \<and> doc_damage (toy_stats 2 4200000000) (toy_stats 1 4200000000) 2 233 = 3179764704"
proof -
  have a: "(2::nat) < 3" and b: "(217::nat) \<le> 233" and c: "(233::nat) \<le> 255" by simp_all
  have run: "battle_attack (toy_stats 2 4200000000) (toy_stats 1 4200000000) 2 233 False
       = Inr (toy_stats 1 1020235296)"
    by (simp add: battle_attack_def physical_damage_def damage_def decrease_hp_def
          toy_stats_def move_defs)
  have d: "doc_damage (toy_stats 2 4200000000) (toy_stats 1 4200000000) 2 233 = 3179764704"
    by (simp add: doc_damage_def doc_move_power_def toy_stats_def SCALING_FACTOR_def
          MOVES_EFFECTIVENESS_def)
  show ?thesis
    using a b c run d attack_damage_formula [OF a b c run] by blast
qed

section \<open>Which aborts a step can raise\<close>

lemma and_then_neq_Inl:
  assumes "r \<noteq> Inl e" and "\<And>x. r = Inr x \<Longrightarrow> f x \<noteq> Inl e"
  shows "and_then r f \<noteq> Inl e"
  using assms by (cases r) simp_all

lemma checked_add_Inl: "checked_add b x y = Inl e \<Longrightarrow> e = EArithmetic"
  by (auto simp: checked_add_def split: if_splits)

lemma checked_mul_Inl: "checked_mul b x y = Inl e \<Longrightarrow> e = EArithmetic"
  by (auto simp: checked_mul_def split: if_splits)

lemma checked_div_Inl: "checked_div x y = Inl e \<Longrightarrow> e = EArithmetic"
  by (auto simp: checked_div_def split: if_splits)

lemma borrow_Inl: "borrow v i = Inl e \<Longrightarrow> e = EIndexOutOfBounds"
  by (auto simp: borrow_def split: if_splits)

lemma option_borrow_Inl: "option_borrow t = Inl e \<Longrightarrow> e = EOptionNotSet"
  by (cases t) (auto simp: option_borrow_def)

lemma checked_not_random:
  "checked_add b x y \<noteq> Inl EIncorrectRandomValue"
  "checked_mul b x y \<noteq> Inl EIncorrectRandomValue"
  "checked_div x y \<noteq> Inl EIncorrectRandomValue"
  "borrow v i \<noteq> Inl EIncorrectRandomValue"
  "option_borrow t \<noteq> Inl EIncorrectRandomValue"
  using checked_add_Inl checked_mul_Inl checked_div_Inl borrow_Inl option_borrow_Inl
  by fastforce+

lemma damage_not_random: "damage lvl atk dfc p r s \<noteq> Inl EIncorrectRandomValue"
  unfolding damage_def by (intro and_then_neq_Inl checked_not_random)

lemma physical_damage_not_random:
  assumes "217 \<le> r" and "r \<le> 255"
  shows "physical_damage a d p r \<noteq> Inl EIncorrectRandomValue"
  using assms damage_not_random by (simp add: physical_damage_def)

lemmas step_Inl = checked_add_Inl checked_mul_Inl checked_div_Inl borrow_Inl option_borrow_Inl

lemma battle_attack_not_random:
  assumes "217 \<le> r" and "r \<le> 255"
  shows "battle_attack a d mv r dbg \<noteq> Inl EIncorrectRandomValue"
  using physical_damage_not_random [OF assms]
  unfolding battle_attack_def
  by (auto simp: and_then_eq_Inl dest: step_Inl split: if_splits)

lemma hit_rng_range:
  assumes "hit_rng H sd path rnd = Inr r"
  shows "217 \<le> r \<and> r \<le> 255"
proof -
  from assms have "r = derive H sd path ! rnd mod 38 + 217"
    by (simp add: hit_rng_eq_Inr)
  moreover have "derive H sd path ! rnd mod 38 < 38" by simp
  ultimately show ?thesis by linarith
qed

lemma hit_rng_Inl: "hit_rng H sd path rnd = Inl e \<Longrightarrow> e = EIndexOutOfBounds"
  by (auto simp: hit_rng_def and_then_eq_Inl dest: step_Inl)

lemma attack_after_hit_rng:
  assumes "hit_rng H sd path n = Inr r"
  shows "battle_attack a d mv r dbg \<noteq> Inl EIncorrectRandomValue"
  using hit_rng_range [OF assms] battle_attack_not_random by blast

lemma reveal_players_not_random:
  "reveal_players H aid rnd win att dfn mv salt \<noteq> Inl EIncorrectRandomValue"
proof
  assume "reveal_players H aid rnd win att dfn mv salt = Inl EIncorrectRandomValue"
  then show False
    unfolding reveal_players_def Let_def
    by (auto simp: and_then_eq_Inl dest: step_Inl hit_rng_Inl attack_after_hit_rng
          split: if_splits)
qed

lemma reveal_not_random: "reveal H a mv salt sender \<noteq> Inl EIncorrectRandomValue"
  using reveal_players_not_random
  unfolding reveal_def
  by (auto simp: and_then_eq_Inl dest: step_Inl split: if_splits prod.splits)

section \<open>The random byte of a reveal (claim C7)\<close>

text \<open>
  Claim C7. In every successful reveal the byte handed to the damage engine is
  \<open>derive(digest, 2)[round] mod 38 + 217\<close>, where \<open>digest\<close> is the hash of the move
  byte followed by the salt (and equals the stored commitment); it lies in [217, 255].
  Hence \<open>reveal\<close> never aborts with \<open>EIncorrectRandomValue\<close>, the abort of the damage
  engine's check on that byte, whatever the arena and the arguments.
\<close>

theorem reveal_random_byte_in_range:
  "reveal H a mv salt sender \<noteq> Inl EIncorrectRandomValue
   \<and> (reveal H a mv salt sender = Inr (a', evs) \<longrightarrow>
        (\<exists>att dfn dfn' r.
            attacker_of a sender = Some att \<and> defender_of a sender = Some dfn
          \<and> defender_of a' sender = Some dfn'
          \<and> next_attack att = Some (H ([mv] @ salt))
          \<and> r = derive H (H ([mv] @ salt)) 2 ! round a mod 38 + 217
          \<and> 217 \<le> r \<and> r \<le> 255
          \<and> battle_attack (stats att) (stats dfn) mv r False = Inr (stats dfn')))"
proof (intro conjI impI)
  show "reveal H a mv salt sender \<noteq> Inl EIncorrectRandomValue"
    by (rule reveal_not_random)
next
  assume ok: "reveal H a mv salt sender = Inr (a', evs)"
  from reveal_Inr [OF ok] obtain att dfn att' dfn' rnd' win' where
       at: "attacker_of a sender = Some att"
   and d: "defender_of a sender = Some dfn" and d': "defender_of a' sender = Some dfn'"
   and rp: "reveal_players H (uid a) (round a) (winner a) att dfn mv salt
            = Inr (att', dfn', rnd', win', evs)"
    by blast
  from reveal_players_Inr(4) [OF rp] obtain r ds where
       h: "hit_rng H (H ([mv] @ salt)) 2 (round a) = Inr r"
   and b: "battle_attack (stats att) (stats dfn) mv r False = Inr ds"
   and e: "dfn' = dfn\<lparr>stats := ds\<rparr>"
    by blast
  from h have r: "r = derive H (H ([mv] @ salt)) 2 ! round a mod 38 + 217"
    by (simp add: hit_rng_eq_Inr)
  have s: "stats dfn' = ds" using e by simp
  show "\<exists>att dfn dfn' r.
            attacker_of a sender = Some att \<and> defender_of a sender = Some dfn
          \<and> defender_of a' sender = Some dfn'
          \<and> next_attack att = Some (H ([mv] @ salt))
          \<and> r = derive H (H ([mv] @ salt)) 2 ! round a mod 38 + 217
          \<and> 217 \<le> r \<and> r \<le> 255
          \<and> battle_attack (stats att) (stats dfn) mv r False = Inr (stats dfn')"
    using at d d' reveal_players_Inr(1) [OF rp] r hit_rng_range [OF h] b s by blast
qed

theorem reveal_random_byte_in_range_witness:
  "reveal toy_hash game2 2 toy_salt bob \<noteq> Inl EIncorrectRandomValue
   \<and> reveal toy_hash game2 2 toy_salt bob
       = Inr (game3, [PlayerReveal [9] 2, RoundResult [9] 4200000000 1020235296])
   \<and> (\<exists>att dfn dfn' r.
            attacker_of game2 bob = Some att \<and> defender_of game2 bob = Some dfn
          \<and> defender_of game3 bob = Some dfn'
          \<and> next_attack att = Some (toy_hash ([2] @ toy_salt))
          \<and> r = derive toy_hash (toy_hash ([2] @ toy_salt)) 2 ! round game2 mod 38 + 217
          \<and> 217 \<le> r \<and> r \<le> 255
          \<and> battle_attack (stats att) (stats dfn) 2 r False = Inr (stats dfn'))"
proof -
  have step: "reveal toy_hash game2 2 toy_salt bob
       = Inr (game3, [PlayerReveal [9] 2, RoundResult [9] 4200000000 1020235296])"
    using reveal_game2 by simp
  show ?thesis
    using step
      reveal_random_byte_in_range [of toy_hash game2 2 toy_salt bob game3
        "[PlayerReveal [9] 2, RoundResult [9] 4200000000 1020235296]"]
    by blast
qed

section \<open>Hit points (claim C8)\<close>

lemma decrease_hp_le: "hp (decrease_hp st v) \<le> hp st"
  by (simp add: decrease_hp_def)

lemma battle_attack_hp_le:
  assumes "battle_attack a d mv r dbg = Inr d'"
  shows "hp d' \<le> hp d"
  using battle_attack_value [OF assms] decrease_hp_le by simp

lemma reveal_players_hp:
  assumes "reveal_players H aid rnd win att dfn mv salt = Inr (att', dfn', rnd', win', evs)"
  shows "stats att' = stats att \<and> hp (stats dfn') \<le> hp (stats dfn)"
  using reveal_players_Inr(4,5) [OF assms] battle_attack_hp_le by auto

lemma join_Inr:
  assumes "join H a sender = Inr (a', evs)"
  shows "player_two a = None \<and> sender \<noteq> account (player_one a)
    \<and> (\<exists>p. a' = a\<lparr>player_two := Some p\<rparr> \<and> account p = sender
          \<and> next_attack p = None \<and> next_round p = 0)"
  using assms
  by (auto simp: join_def and_then_eq_Inr option_fill_def split: if_splits option.splits)

lemma commit_Inr:
  assumes "commit a c sender = Inr (a', evs)"
  shows "winner a = None \<and> (\<exists>p2. player_two a = Some p2
    \<and> ((sender = account (player_one a) \<and> next_attack (player_one a) = None
         \<and> a' = a\<lparr>player_one := (player_one a)\<lparr>next_attack := Some c\<rparr>\<rparr>)
       \<or> (sender \<noteq> account (player_one a) \<and> sender = account p2 \<and> next_attack p2 = None
         \<and> a' = a\<lparr>player_two := Some (p2\<lparr>next_attack := Some c\<rparr>)\<rparr>)))"
  using assms
  by (auto simp: commit_def and_then_eq_Inr option_borrow_eq_Inr split: if_splits)

lemma run_hp:
  assumes "run H a x = Inr (a', evs)"
  shows "hp (stats (player_one a')) \<le> hp (stats (player_one a))
    \<and> (\<forall>p2. player_two a = Some p2 \<longrightarrow>
          (\<exists>p2'. player_two a' = Some p2' \<and> hp (stats p2') \<le> hp (stats p2)))"
proof (cases x)
  case (Join sender)
  with assms join_Inr [of H a sender a' evs] show ?thesis by auto
next
  case (Commit sender c)
  with assms commit_Inr [of a c sender a' evs] show ?thesis by auto
next
  case (Reveal sender mv salt)
  with assms have ok: "reveal H a mv salt sender = Inr (a', evs)" by simp
  from reveal_Inr [OF ok] obtain att dfn att' dfn' rnd' win' where
       at: "attacker_of a sender = Some att" and d: "defender_of a sender = Some dfn"
   and rp: "reveal_players H (uid a) (round a) (winner a) att dfn mv salt
            = Inr (att', dfn', rnd', win', evs)"
   and a': "a' = (if is_player_one a sender
             then a\<lparr>round := rnd', player_one := att', player_two := Some dfn', winner := win'\<rparr>
             else a\<lparr>round := rnd', player_one := dfn', player_two := Some att', winner := win'\<rparr>)"
    by blast
  note h = reveal_players_hp [OF rp]
  show ?thesis
    using at d a' h
    by (auto simp: attacker_of_def defender_of_def split: if_splits)
qed

lemma apply_tx_hp:
  "hp (stats (player_one (apply_tx H a x))) \<le> hp (stats (player_one a))
    \<and> (\<forall>p2. player_two a = Some p2 \<longrightarrow>
          (\<exists>p2'. player_two (apply_tx H a x) = Some p2' \<and> hp (stats p2') \<le> hp (stats p2)))"
proof (cases "run H a x")
  case (Inl e)
  then show ?thesis by (simp add: apply_tx_def)
next
  case (Inr r)
  obtain a' evs where r: "r = (a', evs)" by (cases r)
  with Inr have "apply_tx H a x = a'" by (simp add: apply_tx_def)
  with run_hp [of H a x a' evs] Inr r show ?thesis by simp
qed

lemma apply_all_hp:
  "hp (stats (player_one (apply_all H a xs))) \<le> hp (stats (player_one a))
    \<and> (\<forall>p2. player_two a = Some p2 \<longrightarrow>
          (\<exists>p2'. player_two (apply_all H a xs) = Some p2' \<and> hp (stats p2') \<le> hp (stats p2)))"
proof (induction xs arbitrary: a)
  case Nil
  then show ?case by (simp add: apply_all_def)
next
  case (Cons x xs)
  have unf: "apply_all H a (x # xs) = apply_all H (apply_tx H a x) xs"
    by (simp add: apply_all_def)
  show ?case
    unfolding unf
    using Cons.IH [of "apply_tx H a x"] apply_tx_hp [of H a x]
    by (metis le_trans)
qed

text \<open>
  Claim C8. Across every sequence of transactions on an arena, whether they succeed or
  abort, the hp of player one never increases, and neither does the hp of player two
  once player two is present (player two stays present). \<open>decrease_hp\<close>, the only
  function that writes hp, returns the hp minus the damage when the damage is at most
  the hp and exactly 0 when the damage exceeds it; hp is an unsigned integer and the
  subtraction is never evaluated below zero.
\<close>

theorem hp_never_increases:
  "hp (stats (player_one (apply_all H a xs))) \<le> hp (stats (player_one a))
   \<and> (player_two a = Some p2 \<longrightarrow>
        (\<exists>p2'. player_two (apply_all H a xs) = Some p2' \<and> hp (stats p2') \<le> hp (stats p2)))
   \<and> hp (decrease_hp st v) = (if v > hp st then 0 else hp st - v)
   \<and> hp (decrease_hp st v) \<le> hp st"
  using apply_all_hp [of H a xs] by (simp add: decrease_hp_def)

lemma apply_tx_Inr: "run H a x = Inr (a', evs) \<Longrightarrow> apply_tx H a x = a'"
  by (simp add: apply_tx_def)

lemma apply_tx_Inl: "run H a x = Inl e \<Longrightarrow> apply_tx H a x = a"
  by (simp add: apply_tx_def)

lemma play_game1:
  "apply_all toy_hash game1
     [Commit bob (toy_hash (2 # toy_salt)), Reveal bob 2 toy_salt,
      Commit alice (toy_hash (0 # toy_salt)), Reveal alice 0 toy_salt,
      Commit bob (toy_hash (2 # toy_salt)), Reveal bob 2 toy_salt] = game7"
  by (simp add: apply_all_def apply_tx_Inr [OF commit_game1] apply_tx_Inr [OF reveal_game2]
        apply_tx_Inr [OF commit_game3] apply_tx_Inr [OF reveal_game4]
        apply_tx_Inr [OF commit_game5] apply_tx_Inr [OF reveal_game6])

theorem hp_never_increases_witness:
  "player_two game1 = Some (toy_player bob 2 4200000000 None 0)
   \<and> apply_all toy_hash game1
       [Commit bob (toy_hash (2 # toy_salt)), Reveal bob 2 toy_salt,
        Commit alice (toy_hash (0 # toy_salt)), Reveal alice 0 toy_salt,
        Commit bob (toy_hash (2 # toy_salt)), Reveal bob 2 toy_salt] = game7
   \<and> hp (stats (player_one game7)) \<le> hp (stats (player_one game1))
   \<and> (\<exists>p2'. player_two game7 = Some p2'
        \<and> hp (stats p2') \<le> hp (stats (toy_player bob 2 4200000000 None 0)))
   \<and> hp (decrease_hp (toy_stats 1 1020235296) 3179764704) = 0
   \<and> hp (decrease_hp (toy_stats 1 1020235296) 3179764704) \<le> hp (toy_stats 1 1020235296)"
proof -
  have p: "player_two game1 = Some (toy_player bob 2 4200000000 None 0)"
    by (simp add: game1_def toy_arena_def)
  have v: "(if 3179764704 > hp (toy_stats 1 1020235296) then 0
            else hp (toy_stats 1 1020235296) - 3179764704) = (0::nat)"
    by (simp add: toy_stats_def)
  show ?thesis
    using p v
      hp_never_increases [of toy_hash game1
        "[Commit bob (toy_hash (2 # toy_salt)), Reveal bob 2 toy_salt,
          Commit alice (toy_hash (0 # toy_salt)), Reveal alice 0 toy_salt,
          Commit bob (toy_hash (2 # toy_salt)), Reveal bob 2 toy_salt]"
        "toy_player bob 2 4200000000 None 0" "toy_stats 1 1020235296" 3179764704]
    unfolding play_game1 by simp
qed

section \<open>A reveal that does not match the commitment (claim C3)\<close>

lemma attacker_of_account: "attacker_of a sender = Some p \<Longrightarrow> account p = sender"
  by (auto simp: attacker_of_def is_player_one_def is_player_two_def
        split: if_splits option.splits)

lemma reveal_mismatch_Inl:
  assumes "pending_of a sender \<noteq> Some (H ([mv] @ salt))"
  shows "\<exists>e. reveal H a mv salt sender = Inl e"
proof (cases "reveal H a mv salt sender")
  case (Inl e)
  then show ?thesis by blast
next
  case (Inr r)
  obtain a' evs where "r = (a', evs)" by (cases r)
  with Inr have ok: "reveal H a mv salt sender = Inr (a', evs)" by simp
  from reveal_Inr [OF ok] obtain att dfn att' dfn' rnd' win' where
       at: "attacker_of a sender = Some att"
   and rp: "reveal_players H (uid a) (round a) (winner a) att dfn mv salt
            = Inr (att', dfn', rnd', win', evs)"
    by blast
  from reveal_players_Inr(1) [OF rp] at have "pending_of a sender = Some (H ([mv] @ salt))"
    by (simp add: pending_of_def)
  with assms show ?thesis by simp
qed

lemma reveal_invalid_commitment:
  assumes "player_two a \<noteq> None" and "winner a = None"
    and "attacker_of a sender = Some att" and "next_attack att = Some c"
    and "next_round att = round a" and "c \<noteq> H ([mv] @ salt)"
  shows "reveal H a mv salt sender = Inl EInvalidCommitment"
proof -
  from assms(1) obtain p2 where p2: "player_two a = Some p2" by blast
  have rp: "reveal_players H (uid a) (round a) (winner a) att dfn mv salt
      = Inl EInvalidCommitment" for dfn
    using assms(4,5,6) by (simp add: reveal_players_def option_borrow_def)
  show ?thesis
  proof (cases "is_player_one a sender")
    case True
    with assms(3) have "att = player_one a" by (simp add: attacker_of_def)
    with True p2 assms(2) rp show ?thesis
      by (simp add: reveal_def option_borrow_def)
  next
    case False
    with assms(3) have two: "is_player_two a sender" and "player_two a = Some att"
      by (auto simp: attacker_of_def split: if_splits)
    with p2 have "att = p2" by simp
    with False two p2 assms(2) rp show ?thesis
      by (simp add: reveal_def option_borrow_def)
  qed
qed

text \<open>
  Claim C3, as stated, fails: in \<open>early4\<close>, an arena of the concrete game, Bob has a
  stored commitment, he reveals a move and salt that do not hash to it, and the abort is
  \<open>EMoveAlreadySubmitted\<close> (a sequencing error), not \<open>EInvalidCommitment\<close>, because the
  round check comes first.
\<close>

theorem reveal_mismatch_counterexample:
  "reachable toy_hash early4
   \<and> pending_of early4 bob = Some (toy_hash (1 # toy_salt))
   \<and> toy_hash ([2] @ toy_salt) \<noteq> toy_hash (1 # toy_salt)
   \<and> reveal toy_hash early4 2 toy_salt bob = Inl EMoveAlreadySubmitted
   \<and> reveal toy_hash early4 2 toy_salt bob \<noteq> Inl EInvalidCommitment"
proof -
  have p: "pending_of early4 bob = Some (toy_hash (1 # toy_salt))"
    by (simp add: pending_of_def attacker_of_def is_player_one_def is_player_two_def
          early4_def toy_arena_def toy_player_def alice_def bob_def)
  have h: "toy_hash ([2] @ toy_salt) \<noteq> toy_hash (1 # toy_salt)"
    by (simp add: toy_hash_def toy_salt_def)
  have r: "reveal toy_hash early4 2 toy_salt bob = Inl EMoveAlreadySubmitted"
    by (simp add: reveal_defs early4_def toy_defs move_defs)
  show ?thesis using reachable_early4 p h r by simp
qed

lemma reveal_players_mismatch:
  assumes "next_attack att \<noteq> Some (H ([mv] @ salt))"
  shows "reveal_players H aid rnd win att dfn mv salt =
      Inl (if next_attack att = None then EPlayerOneNotReady
           else if next_round att \<noteq> rnd then EMoveAlreadySubmitted
           else EInvalidCommitment)"
  using assms
  by (cases "next_attack att") (auto simp: reveal_players_def option_borrow_def)

text \<open>
  Claim C3, amended. Whenever the hash of the move byte followed by the salt differs from
  the sender's stored commitment (or the sender has none), \<open>reveal\<close> aborts and the whole
  arena is as before the call. The abort is that of the first check that fails, in the
  order of the source: \<open>EArenaNotReady\<close> when player two is absent, \<open>EArenaOver\<close> when
  there is a winner, \<open>EUnknownSender\<close> when the sender is neither player,
  \<open>EPlayerOneNotReady\<close> when the sender holds no commitment, \<open>EMoveAlreadySubmitted\<close>
  when the sender's \<open>next_round\<close> is not the arena's round, and \<open>EInvalidCommitment\<close>
  (the integrity error) when all these checks pass.
\<close>

theorem reveal_mismatch_fails:
  assumes "pending_of a sender \<noteq> Some (H ([mv] @ salt))"
  shows "reveal H a mv salt sender =
      Inl (if player_two a = None then EArenaNotReady
           else if winner a \<noteq> None then EArenaOver
           else (case attacker_of a sender of
                   None \<Rightarrow> EUnknownSender
                 | Some att \<Rightarrow>
                     if next_attack att = None then EPlayerOneNotReady
                     else if next_round att \<noteq> round a then EMoveAlreadySubmitted
                     else EInvalidCommitment))
    \<and> apply_tx H a (Reveal sender mv salt) = a"
proof -
  have r: "reveal H a mv salt sender =
      Inl (if player_two a = None then EArenaNotReady
           else if winner a \<noteq> None then EArenaOver
           else (case attacker_of a sender of
                   None \<Rightarrow> EUnknownSender
                 | Some att \<Rightarrow>
                     if next_attack att = None then EPlayerOneNotReady
                     else if next_round att \<noteq> round a then EMoveAlreadySubmitted
                     else EInvalidCommitment))"
  proof (cases "player_two a")
    case None
    then show ?thesis by (simp add: reveal_def)
  next
    case (Some p2)
    show ?thesis
    proof (cases "winner a = None")
      case False
      with Some show ?thesis by (simp add: reveal_def)
    next
      case True
      show ?thesis
      proof (cases "is_player_one a sender")
        case one: True
        then have at: "attacker_of a sender = Some (player_one a)"
          by (simp add: attacker_of_def)
        with assms have "next_attack (player_one a) \<noteq> Some (H ([mv] @ salt))"
          by (simp add: pending_of_def)
        from reveal_players_mismatch [where H = H and mv = mv and salt = salt, OF this]
          Some True one at show ?thesis
          by (simp add: reveal_def option_borrow_def)
      next
        case not_one: False
        show ?thesis
        proof (cases "is_player_two a sender")
          case two: True
          with not_one Some have at: "attacker_of a sender = Some p2"
            by (simp add: attacker_of_def)
          with assms have "next_attack p2 \<noteq> Some (H ([mv] @ salt))"
            by (simp add: pending_of_def)
          from reveal_players_mismatch [where H = H and mv = mv and salt = salt, OF this]
            Some True not_one two at show ?thesis
            by (simp add: reveal_def option_borrow_def)
        next
          case not_two: False
          with not_one have "attacker_of a sender = None"
            by (simp add: attacker_of_def)
          with Some True not_one not_two show ?thesis
            by (simp add: reveal_def option_borrow_def)
        qed
      qed
    qed
  qed
  then have "apply_tx H a (Reveal sender mv salt) = a"
    by (simp add: apply_tx_def)
  with r show ?thesis by blast
qed

text \<open>
  In \<open>game2\<close> all earlier checks pass for Bob, and a reveal of move 1 against his
  commitment to move 2 aborts with \<open>EInvalidCommitment\<close>; in \<open>early4\<close> his round check
  fails first.
\<close>

theorem reveal_mismatch_fails_witness:
  "pending_of game2 bob \<noteq> Some (toy_hash ([1] @ toy_salt))
   \<and> reveal toy_hash game2 1 toy_salt bob = Inl EInvalidCommitment
   \<and> apply_tx toy_hash game2 (Reveal bob 1 toy_salt) = game2
   \<and> pending_of early4 bob \<noteq> Some (toy_hash ([2] @ toy_salt))
   \<and> reveal toy_hash early4 2 toy_salt bob = Inl EMoveAlreadySubmitted
   \<and> apply_tx toy_hash early4 (Reveal bob 2 toy_salt) = early4"
proof -
  have at2: "attacker_of game2 bob
      = Some (toy_player bob 2 4200000000 (Some (toy_hash (2 # toy_salt))) 0)"
    by (simp add: attacker_of_def is_player_one_def is_player_two_def
          game2_def toy_arena_def toy_player_def alice_def bob_def)
  have at4: "attacker_of early4 bob
      = Some (toy_player bob 2 4200000000 (Some (toy_hash (1 # toy_salt))) 1)"
    by (simp add: attacker_of_def is_player_one_def is_player_two_def
          early4_def toy_arena_def toy_player_def alice_def bob_def)
  have p2: "pending_of game2 bob \<noteq> Some (toy_hash ([1] @ toy_salt))"
    by (simp add: pending_of_def at2) (simp add: toy_player_def toy_hash_def toy_salt_def)
  have p4: "pending_of early4 bob \<noteq> Some (toy_hash ([2] @ toy_salt))"
    by (simp add: pending_of_def at4) (simp add: toy_player_def toy_hash_def toy_salt_def)
  note t2 = reveal_mismatch_fails [where H = toy_hash and mv = 1 and salt = toy_salt, OF p2]
  note t4 = reveal_mismatch_fails [where H = toy_hash and mv = 2 and salt = toy_salt, OF p4]
  have e2: "(if player_two game2 = None then EArenaNotReady
           else if winner game2 \<noteq> None then EArenaOver
           else (case attacker_of game2 bob of
                   None \<Rightarrow> EUnknownSender
                 | Some att \<Rightarrow>
                     if next_attack att = None then EPlayerOneNotReady
                     else if next_round att \<noteq> round game2 then EMoveAlreadySubmitted
                     else EInvalidCommitment)) = EInvalidCommitment"
    unfolding at2 by (simp add: game2_def toy_arena_def toy_player_def)
  have e4: "(if player_two early4 = None then EArenaNotReady
           else if winner early4 \<noteq> None then EArenaOver
           else (case attacker_of early4 bob of
                   None \<Rightarrow> EUnknownSender
                 | Some att \<Rightarrow>
                     if next_attack att = None then EPlayerOneNotReady
                     else if next_round att \<noteq> round early4 then EMoveAlreadySubmitted
                     else EInvalidCommitment)) = EMoveAlreadySubmitted"
    unfolding at4 by (simp add: early4_def toy_arena_def toy_player_def)
  note r2 = t2 [unfolded e2]
  note r4 = t4 [unfolded e4]
  show ?thesis
    using p2 p4 r2 r4 by blast
qed

section \<open>Joining an arena that has its second player (claim C2)\<close>

text \<open>
  Claim C2, as stated, fails: in \<open>game1\<close> Bob is the stored player two, and his call of
  the entry function \<open>join\<close> does not succeed as a no-op: it aborts, in \<open>option::fill\<close>.
\<close>

theorem join_rejoin_counterexample:
  "reachable toy_hash game1
   \<and> player_two game1 = Some (toy_player bob 2 4200000000 None 0)
   \<and> account (toy_player bob 2 4200000000 None 0) = bob
   \<and> join toy_hash game1 bob = Inl EOptionIsSet"
proof -
  have j: "join toy_hash game1 bob = Inl EOptionIsSet"
    by (simp add: join_def generate_stats_def derive_def stats_new_def smooth_def
          game1_def toy_defs move_defs)
  show ?thesis
    using reachable_game1 j by (simp add: game1_def toy_arena_def toy_player_def)
qed

lemma generate_stats_short:
  assumes "\<not> 7 \<le> length sd"
  shows "generate_stats sd = Inl EIndexOutOfBounds"
proof -
  have "\<exists>e. generate_stats sd = Inl e"
    using assms
    by (cases "generate_stats sd")
      (auto simp: generate_stats_def and_then_eq_Inr borrow_eq_Inr)
  then obtain e where e: "generate_stats sd = Inl e" by blast
  have b: "smooth x \<le> 49" for x using smooth_bounds by blast
  have "checked_add u8_max 10 (smooth x) \<noteq> Inl e'" for x e'
    using b [of x] by (simp add: checked_add_def u8_max_def)
  moreover have "stats_new (10 + smooth x) b1 b2 b3 b4 b5 10 ts \<noteq> Inl e'" for x b1 b2 b3 b4 b5 ts e'
    using scaled_hp_fits [of "10 + smooth x"] b [of x] by (simp add: stats_new_def)
  ultimately have "e = EIndexOutOfBounds"
    using e unfolding generate_stats_def Let_def
    by (auto simp: and_then_eq_Inl checked_add_eq_Inr dest: borrow_Inl)
  with e show ?thesis by simp
qed

text \<open>
  Claim C2, amended. For every arena whose player two is set, the entry function \<open>join\<close>
  aborts for every sender and the arena is unchanged: with \<open>EYouCantTrickMe\<close> for player
  one, and for everyone else, the stored player two as well as a third identity, in
  \<open>option::fill\<close> on the occupied slot (once the stats have been generated, which needs
  seven bytes of hash). The idempotent rejoin and the error that the arena is full are
  the client's: \<open>joinArena\<close> submits nothing in such an arena, it reports a rejoin to the
  stored player two and that the arena is full to anyone else.
\<close>

theorem join_full_arena:
  assumes "player_two a = Some p2"
  shows "join H a sender =
      (if sender = account (player_one a) then Inl EYouCantTrickMe
       else if 7 \<le> length (derive H (seed a) 1) then Inl EOptionIsSet
       else Inl EIndexOutOfBounds)
    \<and> apply_tx H a (Join sender) = a
    \<and> joinArena H a sender =
        (if account p2 \<noteq> sender then Inl ArenaIsFull else Inr (True, a))"
proof -
  have j: "join H a sender =
      (if sender = account (player_one a) then Inl EYouCantTrickMe
       else if 7 \<le> length (derive H (seed a) 1) then Inl EOptionIsSet
       else Inl EIndexOutOfBounds)"
    using assms generate_stats_value [of "derive H (seed a) 1"]
      generate_stats_short [of "derive H (seed a) 1"]
    by (simp add: join_def option_fill_def)
  then have "apply_tx H a (Join sender) = a"
    by (simp add: apply_tx_def)
  with j assms show ?thesis by (simp add: joinArena_def)
qed

theorem join_full_arena_witness:
  "player_two game1 = Some (toy_player bob 2 4200000000 None 0)
   \<and> join toy_hash game1 carol = Inl EOptionIsSet
   \<and> apply_tx toy_hash game1 (Join carol) = game1
   \<and> joinArena toy_hash game1 carol = Inl ArenaIsFull
   \<and> joinArena toy_hash game1 bob = Inr (True, game1)"
proof -
  have p: "player_two game1 = Some (toy_player bob 2 4200000000 None 0)"
    by (simp add: game1_def toy_arena_def)
  have c: "carol \<noteq> account (player_one game1)"
    "7 \<le> length (derive toy_hash (seed game1) 1)"
    "account (toy_player bob 2 4200000000 None 0) \<noteq> carol"
    "account (toy_player bob 2 4200000000 None 0) = bob"
    by (simp_all add: game1_def toy_defs derive_def)
  show ?thesis
    using p c join_full_arena [OF p, of toy_hash carol] join_full_arena [OF p, of toy_hash bob]
    by simp
qed

section \<open>The winner (claim C4)\<close>

lemma commit_over: "winner a = Some w \<Longrightarrow> commit a c sender = Inl EArenaOver"
  by (simp add: commit_def)

lemma reveal_over:
  "winner a = Some w \<Longrightarrow> player_two a \<noteq> None \<Longrightarrow> reveal H a mv salt sender = Inl EArenaOver"
  by (simp add: reveal_def)

lemma join_full: "player_two a \<noteq> None \<Longrightarrow> \<exists>e. join H a sender = Inl e"
  by (cases "join H a sender") (auto dest: join_Inr)

lemma run_winner_kept:
  assumes "run H a x = Inr (a', evs)" and "winner a \<noteq> None \<longrightarrow> player_two a \<noteq> None"
  shows "winner a' \<noteq> None \<longrightarrow> player_two a' \<noteq> None"
proof (cases x)
  case (Join sender)
  with assms join_Inr [of H a sender a' evs] show ?thesis by auto
next
  case (Commit sender c)
  with assms commit_Inr [of a c sender a' evs] show ?thesis by auto
next
  case (Reveal sender mv salt)
  with assms have ok: "reveal H a mv salt sender = Inr (a', evs)" by simp
  from reveal_Inr [OF ok] obtain att' dfn' rnd' win' where
    a': "a' = (if is_player_one a sender
             then a\<lparr>round := rnd', player_one := att', player_two := Some dfn', winner := win'\<rparr>
             else a\<lparr>round := rnd', player_one := dfn', player_two := Some att', winner := win'\<rparr>)"
    by blast
  have "player_two a' \<noteq> None"
    by (cases "is_player_one a sender") (simp_all add: a')
  then show ?thesis by simp
qed

lemma reachable_winner_joined:
  assumes "reachable H a"
  shows "winner a \<noteq> None \<longrightarrow> player_two a \<noteq> None"
  using assms
proof (induction rule: reachable.induct)
  case (reachable_new addr id0 sender a evs)
  then show ?case
    by (auto simp: new_def new_arena_def Let_def and_then_eq_Inr)
next
  case (reachable_run a x a' evs)
  then show ?case using run_winner_kept by blast
qed

lemma finished_tx:
  assumes "winner a = Some w" and "player_two a \<noteq> None"
  shows "apply_tx H a x = a"
proof (cases x)
  case (Join sender)
  with join_full [OF assms(2), of H sender] show ?thesis
    by (auto simp: apply_tx_def)
next
  case (Commit sender c)
  with commit_over [OF assms(1)] show ?thesis by (simp add: apply_tx_def)
next
  case (Reveal sender mv salt)
  with reveal_over [OF assms] show ?thesis by (simp add: apply_tx_def)
qed

lemma finished_all:
  assumes "winner a = Some w" and "player_two a \<noteq> None"
  shows "apply_all H a xs = a"
proof (induction xs)
  case Nil
  show ?case by (simp add: apply_all_def)
next
  case (Cons x xs)
  have "apply_all H a (x # xs) = apply_all H (apply_tx H a x) xs"
    by (simp add: apply_all_def)
  with finished_tx [OF assms] Cons.IH show ?case by simp
qed

lemma run_sets_winner:
  assumes "run H a x = Inr (a', evs)" and "winner a = None" and "winner a' = Some w"
  shows "\<exists>mv salt dfn'. x = Reveal w mv salt \<and> defender_of a' w = Some dfn'
    \<and> hp (stats dfn') = 0"
proof (cases x)
  case (Join sender)
  with assms join_Inr [of H a sender a' evs] show ?thesis by auto
next
  case (Commit sender c)
  with assms commit_Inr [of a c sender a' evs] show ?thesis by auto
next
  case (Reveal sender mv salt)
  with assms have ok: "reveal H a mv salt sender = Inr (a', evs)" by simp
  from reveal_Inr [OF ok] obtain att dfn att' dfn' rnd' win' where
       at: "attacker_of a sender = Some att"
   and d': "defender_of a' sender = Some dfn'"
   and rp: "reveal_players H (uid a) (round a) (winner a) att dfn mv salt
            = Inr (att', dfn', rnd', win', evs)"
   and w: "winner a' = win'"
    by blast
  from reveal_players_Inr(7) [OF rp] assms(2,3) w
  have z: "hp (stats dfn') = 0" and "w = account att"
    by (auto split: if_splits)
  with attacker_of_account [OF at] have "w = sender" by simp
  with Reveal d' z show ?thesis by blast
qed

text \<open>
  Claim C4. In every reachable arena with a winner, \<open>commit\<close> and \<open>reveal\<close> abort with
  \<open>EArenaOver\<close> (a precondition error) for every sender and every argument, every
  transaction and every list of transactions leaves the arena as it is, so the winner is
  never modified. The winner is set only by a successful reveal, to the sender of that
  reveal, and the defender's hp is 0 after it.
\<close>

theorem winner_is_final:
  assumes "reachable H a"
  shows "(winner a = Some w \<longrightarrow>
            commit a c sender = Inl EArenaOver
          \<and> reveal H a mv salt sender = Inl EArenaOver
          \<and> apply_tx H a x = a
          \<and> apply_all H a xs = a
          \<and> winner (apply_all H a xs) = Some w)
    \<and> (winner a = None \<and> run H a x = Inr (a', evs) \<and> winner a' = Some w \<longrightarrow>
          (\<exists>mv' salt' dfn'. x = Reveal w mv' salt' \<and> defender_of a' w = Some dfn'
             \<and> hp (stats dfn') = 0))"
proof (intro conjI impI)
  assume w: "winner a = Some w"
  with reachable_winner_joined [OF assms] have p: "player_two a \<noteq> None" by simp
  show "commit a c sender = Inl EArenaOver" by (rule commit_over [OF w])
  show "reveal H a mv salt sender = Inl EArenaOver" by (rule reveal_over [OF w p])
  show "apply_tx H a x = a" by (rule finished_tx [OF w p])
  show "apply_all H a xs = a" by (rule finished_all [OF w p])
  then show "winner (apply_all H a xs) = Some w" using w by simp
next
  assume "winner a = None \<and> run H a x = Inr (a', evs) \<and> winner a' = Some w"
  then show "\<exists>mv' salt' dfn'. x = Reveal w mv' salt' \<and> defender_of a' w = Some dfn'
             \<and> hp (stats dfn') = 0"
    using run_sets_winner by blast
qed

text \<open>
  In the concrete game, Bob's last reveal sets the winner in \<open>game6\<close>, giving \<open>game7\<close>,
  where nothing is accepted any more.
\<close>

theorem winner_is_final_witness:
  "reachable toy_hash game7 \<and> winner game7 = Some bob
   \<and> commit game7 (toy_hash (0 # toy_salt)) alice = Inl EArenaOver
   \<and> reveal toy_hash game7 0 toy_salt alice = Inl EArenaOver
   \<and> apply_tx toy_hash game7 (Join carol) = game7
   \<and> apply_all toy_hash game7 [Commit alice (toy_hash (0 # toy_salt)), Reveal bob 2 toy_salt]
       = game7
   \<and> reachable toy_hash game6 \<and> winner game6 = None
   \<and> run toy_hash game6 (Reveal bob 2 toy_salt)
       = Inr (game7, [PlayerReveal [9] 2, RoundResult [9] 2893333340 0])
   \<and> (\<exists>mv' salt' dfn'. Reveal bob 2 toy_salt = Reveal bob mv' salt'
         \<and> defender_of game7 bob = Some dfn' \<and> hp (stats dfn') = 0)"
proof -
  have w7: "winner game7 = Some bob" and w6: "winner game6 = None"
    by (simp_all add: game7_def game6_def toy_arena_def)
  note fin = winner_is_final [OF reachable_game7, of bob "toy_hash (0 # toy_salt)" alice
      0 toy_salt "Join carol"
      "[Commit alice (toy_hash (0 # toy_salt)), Reveal bob 2 toy_salt]"]
  note set = winner_is_final [OF reachable_game6, of bob _ _ _ _ "Reveal bob 2 toy_salt"
      _ game7 "[PlayerReveal [9] 2, RoundResult [9] 2893333340 0]"]
  show ?thesis
    using reachable_game7 reachable_game6 w7 w6 reveal_game6 fin set by blast
qed

section \<open>Round counters and early commits (claim C10)\<close>

lemma run_rounds_ok:
  assumes "run H a x = Inr (a', evs)" and "rounds_ok a"
  shows "rounds_ok a'"
proof (cases x)
  case (Join sender)
  with assms join_Inr [of H a sender a' evs] show ?thesis
    by (auto simp: rounds_ok_def)
next
  case (Commit sender c)
  with assms commit_Inr [of a c sender a' evs] show ?thesis
    by (auto simp: rounds_ok_def)
next
  case (Reveal sender mv salt)
  with assms have ok: "reveal H a mv salt sender = Inr (a', evs)" by simp
  from reveal_Inr [OF ok] obtain att dfn att' dfn' rnd' win' where
       at: "attacker_of a sender = Some att" and d: "defender_of a sender = Some dfn"
   and rp: "reveal_players H (uid a) (round a) (winner a) att dfn mv salt
            = Inr (att', dfn', rnd', win', evs)"
   and a': "a' = (if is_player_one a sender
             then a\<lparr>round := rnd', player_one := att', player_two := Some dfn', winner := win'\<rparr>
             else a\<lparr>round := rnd', player_one := dfn', player_two := Some att', winner := win'\<rparr>)"
    by blast
  from reveal_players_Inr(4) [OF rp] have nd: "next_round dfn' = next_round dfn" by auto
  from reveal_players_Inr(5) [OF rp] have na: "next_round att' = round a + 1" by simp
  from reveal_players_Inr(6) [OF rp] have
    r: "rnd' = (if next_attack dfn = None \<and> next_round dfn = round a + 1
               then round a + 1 else round a)" .
  have dn: "next_round dfn = round a \<or> next_round dfn = round a + 1"
    using assms(2) at d
    by (auto simp: rounds_ok_def attacker_of_def defender_of_def split: if_splits)
  show ?thesis
  proof (cases "is_player_one a sender")
    case True
    then have "a' = a\<lparr>round := rnd', player_one := att', player_two := Some dfn', winner := win'\<rparr>"
      using a' by simp
    then show ?thesis using nd na r dn by (auto simp: rounds_ok_def)
  next
    case False
    then have "a' = a\<lparr>round := rnd', player_one := dfn', player_two := Some att', winner := win'\<rparr>"
      using a' by simp
    then show ?thesis using nd na r dn by (auto simp: rounds_ok_def)
  qed
qed

lemma reachable_rounds_ok:
  assumes "reachable H a"
  shows "rounds_ok a"
  using assms
proof (induction rule: reachable.induct)
  case (reachable_new addr id0 sender a evs)
  then show ?case
    by (auto simp: new_def new_arena_def Let_def and_then_eq_Inr rounds_ok_def)
next
  case (reachable_run a x a' evs)
  then show ?case using run_rounds_ok by blast
qed

lemma commit_early_Inr:
  assumes "winner a = None" and "player_two a \<noteq> None"
    and "attacker_of a sender = Some p" and "next_attack p = None"
  shows "\<exists>a' evs p'. commit a c sender = Inr (a', evs)
    \<and> attacker_of a' sender = Some p' \<and> p' = p\<lparr>next_attack := Some c\<rparr>
    \<and> round a' = round a \<and> winner a' = None \<and> player_two a' \<noteq> None"
proof -
  from assms(2) obtain p2 where p2: "player_two a = Some p2" by blast
  show ?thesis
  proof (cases "is_player_one a sender")
    case True
    with assms(3) have "p = player_one a" by (simp add: attacker_of_def)
    with True assms(1,4) p2 show ?thesis
      by (simp add: commit_def attacker_of_def is_player_one_def)
  next
    case False
    with assms(3) have two: "is_player_two a sender" and "player_two a = Some p"
      by (auto simp: attacker_of_def split: if_splits)
    with p2 have "p = p2" by simp
    with False two assms(1,4) p2 show ?thesis
      by (simp add: commit_def attacker_of_def is_player_one_def is_player_two_def
            option_borrow_def)
  qed
qed

lemma reveal_wrong_round:
  assumes "winner a = None" and "player_two a \<noteq> None"
    and "attacker_of a sender = Some p" and "next_attack p \<noteq> None"
    and "next_round p \<noteq> round a"
  shows "reveal H a mv salt sender = Inl EMoveAlreadySubmitted"
proof -
  from assms(2) obtain p2 where p2: "player_two a = Some p2" by blast
  have rp: "reveal_players H (uid a) (round a) (winner a) p dfn mv salt
      = Inl EMoveAlreadySubmitted" for dfn
    using assms(4,5) by (simp add: reveal_players_def)
  show ?thesis
  proof (cases "is_player_one a sender")
    case True
    with assms(3) have "p = player_one a" by (simp add: attacker_of_def)
    with True p2 assms(1) rp show ?thesis
      by (simp add: reveal_def option_borrow_def)
  next
    case False
    with assms(3) have two: "is_player_two a sender" and "player_two a = Some p"
      by (auto simp: attacker_of_def split: if_splits)
    with p2 have "p = p2" by simp
    with False two p2 assms(1) rp show ?thesis
      by (simp add: reveal_def option_borrow_def)
  qed
qed

text \<open>
  Claim C10. In every reachable arena each present player's \<open>next_round\<close> is the arena's
  round or the round plus one. \<open>commit\<close> has no round check: in an arena with both
  players and no winner, a player without a pending commitment whose \<open>next_round\<close> is
  already the round plus one commits successfully, the round and his \<open>next_round\<close> stay as
  they are, and in the resulting arena his \<open>reveal\<close> aborts with \<open>EMoveAlreadySubmitted\<close>
  whatever move and salt he reveals. In general a reveal by a player who holds a
  commitment aborts so whenever his \<open>next_round\<close> is not the arena's round, so that
  commitment can be revealed only once the round has advanced.
\<close>

theorem early_commit:
  assumes "reachable H a"
  shows "(next_round (player_one a) = round a \<or> next_round (player_one a) = round a + 1)
    \<and> (\<forall>p2. player_two a = Some p2 \<longrightarrow>
          next_round p2 = round a \<or> next_round p2 = round a + 1)
    \<and> (winner a = None \<and> player_two a \<noteq> None \<and> attacker_of a sender = Some p
         \<and> next_attack p = None \<and> next_round p = round a + 1 \<longrightarrow>
          (\<exists>a' evs p'. commit a c sender = Inr (a', evs)
             \<and> attacker_of a' sender = Some p' \<and> next_attack p' = Some c
             \<and> next_round p' = round a + 1 \<and> round a' = round a
             \<and> reveal H a' mv salt sender = Inl EMoveAlreadySubmitted))
    \<and> (winner a = None \<and> player_two a \<noteq> None \<and> attacker_of a sender = Some p
         \<and> next_attack p \<noteq> None \<and> next_round p \<noteq> round a \<longrightarrow>
          reveal H a mv salt sender = Inl EMoveAlreadySubmitted)"
proof (intro conjI allI impI)
  note inv = reachable_rounds_ok [OF assms]
  show "next_round (player_one a) = round a \<or> next_round (player_one a) = round a + 1"
    using inv by (simp add: rounds_ok_def)
  show "next_round p2 = round a \<or> next_round p2 = round a + 1"
    if "player_two a = Some p2" for p2
    using inv that by (simp add: rounds_ok_def)
next
  assume h: "winner a = None \<and> player_two a \<noteq> None \<and> attacker_of a sender = Some p
         \<and> next_attack p = None \<and> next_round p = round a + 1"
  then have w: "winner a = None" and j: "player_two a \<noteq> None"
    and at: "attacker_of a sender = Some p" and n: "next_attack p = None"
    and r: "next_round p = round a + 1"
    by simp_all
  from commit_early_Inr [OF w j at n, of c] obtain a' evs p' where
       c: "commit a c sender = Inr (a', evs)"
   and at': "attacker_of a' sender = Some p'" and p': "p' = p\<lparr>next_attack := Some c\<rparr>"
   and r': "round a' = round a" and w': "winner a' = None" and j': "player_two a' \<noteq> None"
    by blast
  have "reveal H a' mv salt sender = Inl EMoveAlreadySubmitted"
    using reveal_wrong_round [OF w' j' at'] p' r r' by simp
  with c at' p' r r'
  show "\<exists>a' evs p'. commit a c sender = Inr (a', evs)
             \<and> attacker_of a' sender = Some p' \<and> next_attack p' = Some c
             \<and> next_round p' = round a + 1 \<and> round a' = round a
             \<and> reveal H a' mv salt sender = Inl EMoveAlreadySubmitted"
    by auto
next
  assume "winner a = None \<and> player_two a \<noteq> None \<and> attacker_of a sender = Some p
         \<and> next_attack p \<noteq> None \<and> next_round p \<noteq> round a"
  then show "reveal H a mv salt sender = Inl EMoveAlreadySubmitted"
    using reveal_wrong_round by blast
qed

text \<open>
  In the concrete game, Bob has revealed in round 0 and Alice has not: in \<open>game3\<close> his
  \<open>next_round\<close> is 1 and the round is 0. He commits again, which gives \<open>early4\<close>, and
  cannot reveal there.
\<close>

theorem early_commit_witness:
  "reachable toy_hash game3
   \<and> round game3 = 0 \<and> next_round (player_one game3) = 0
   \<and> player_two game3 = Some (toy_player bob 2 4200000000 None 1)
   \<and> winner game3 = None \<and> player_two game3 \<noteq> None
   \<and> attacker_of game3 bob = Some (toy_player bob 2 4200000000 None 1)
   \<and> next_attack (toy_player bob 2 4200000000 None 1) = None
   \<and> next_round (toy_player bob 2 4200000000 None 1) = round game3 + 1
   \<and> (\<exists>a' evs p'. commit game3 (toy_hash (1 # toy_salt)) bob = Inr (a', evs)
         \<and> attacker_of a' bob = Some p' \<and> next_attack p' = Some (toy_hash (1 # toy_salt))
         \<and> next_round p' = round game3 + 1 \<and> round a' = round game3
         \<and> reveal toy_hash a' 1 toy_salt bob = Inl EMoveAlreadySubmitted)"
proof -
  have g: "round game3 = 0" "next_round (player_one game3) = 0"
    "player_two game3 = Some (toy_player bob 2 4200000000 None 1)"
    "winner game3 = None" "player_two game3 \<noteq> None"
    by (simp_all add: game3_def toy_arena_def toy_player_def)
  have at: "attacker_of game3 bob = Some (toy_player bob 2 4200000000 None 1)"
    by (simp add: attacker_of_def is_player_one_def is_player_two_def
          game3_def toy_arena_def toy_player_def alice_def bob_def)
  have p: "next_attack (toy_player bob 2 4200000000 None 1) = None"
    "next_round (toy_player bob 2 4200000000 None 1) = round game3 + 1"
    by (simp_all add: g toy_player_def)
  note t = early_commit [OF reachable_game3, of bob "toy_player bob 2 4200000000 None 1"
      "toy_hash (1 # toy_salt)" 1 toy_salt]
  show ?thesis
    using reachable_game3 g at p t by blast
qed

section \<open>A consequence: an early commit stalls the arena\<close>

text \<open>
  Not one of the claims, but what follows from them: when both players' \<open>next_round\<close>
  differ from the round, no reveal can succeed, and since only a reveal changes the
  counters, the round never changes again. The concrete game gets there from \<open>early4\<close>:
  Alice's reveal, the second of round 0, does not advance the round, because Bob, the
  defender, holds a commitment.
\<close>

lemma reveal_needs_round:
  assumes "reveal H a mv salt sender = Inr (a', evs)"
  shows "\<exists>p. attacker_of a sender = Some p \<and> next_round p = round a"
proof -
  from reveal_Inr [OF assms] obtain att dfn att' dfn' rnd' win' where
       at: "attacker_of a sender = Some att"
   and rp: "reveal_players H (uid a) (round a) (winner a) att dfn mv salt
            = Inr (att', dfn', rnd', win', evs)"
    by blast
  from reveal_players_Inr(2) [OF rp] at show ?thesis by blast
qed

lemma stalled_tx:
  assumes "player_two a = Some p2" and "next_round (player_one a) \<noteq> round a"
    and "next_round p2 \<noteq> round a"
  shows "round (apply_tx H a x) = round a
    \<and> next_round (player_one (apply_tx H a x)) = next_round (player_one a)
    \<and> (\<exists>p2'. player_two (apply_tx H a x) = Some p2' \<and> next_round p2' = next_round p2)"
proof (cases "run H a x")
  case (Inl e)
  then show ?thesis using assms by (simp add: apply_tx_def)
next
  case (Inr r)
  obtain a' evs where r: "r = (a', evs)" by (cases r)
  with Inr have ok: "run H a x = Inr (a', evs)" by simp
  then have a': "apply_tx H a x = a'" by (rule apply_tx_Inr)
  show ?thesis
  proof (cases x)
    case (Join sender)
    with ok join_Inr [of H a sender a' evs] assms(1) show ?thesis by simp
  next
    case (Commit sender c)
    with ok commit_Inr [of a c sender a' evs] assms(1) show ?thesis
      unfolding a' by auto
  next
    case (Reveal sender mv salt)
    with ok have "reveal H a mv salt sender = Inr (a', evs)" by simp
    from reveal_needs_round [OF this] assms show ?thesis
      by (auto simp: attacker_of_def split: if_splits)
  qed
qed

lemma stalled_forever:
  assumes "player_two a = Some p2" and "next_round (player_one a) \<noteq> round a"
    and "next_round p2 \<noteq> round a"
  shows "round (apply_all H a xs) = round a"
  using assms
proof (induction xs arbitrary: a p2)
  case Nil
  show ?case by (simp add: apply_all_def)
next
  case (Cons x xs)
  have unf: "apply_all H a (x # xs) = apply_all H (apply_tx H a x) xs"
    by (simp add: apply_all_def)
  from stalled_tx [OF Cons.prems, of H x] obtain p2' where
       r: "round (apply_tx H a x) = round a"
   and n1: "next_round (player_one (apply_tx H a x)) = next_round (player_one a)"
   and p: "player_two (apply_tx H a x) = Some p2'" and n2: "next_round p2' = next_round p2"
    by blast
  have "round (apply_all H (apply_tx H a x) xs) = round (apply_tx H a x)"
    using Cons.prems(2,3) r n1 n2 by (intro Cons.IH [OF p]) simp_all
  with r unf show ?case by simp
qed

lemma commit_early4:
  "run toy_hash early4 (Commit alice (toy_hash (0 # toy_salt)))
     = Inr (early5, [PlayerCommit [9]])"
  by (simp add: commit_def early4_def early5_def toy_defs move_defs)

lemma reveal_early5:
  "run toy_hash early5 (Reveal alice 0 toy_salt)
     = Inr (early6, [PlayerReveal [9] 0, RoundResult [9] 1020235296 2893333340])"
  by (simp add: reveal_defs early5_def early6_def toy_defs move_defs)

lemma reachable_early6: "reachable toy_hash early6"
  by (rule reachable_run [OF reachable_run [OF reachable_early4 commit_early4] reveal_early5])

lemma early6_stalled: "round (apply_all toy_hash early6 xs) = 0"
proof -
  have "round (apply_all toy_hash early6 xs) = round early6"
    by (rule stalled_forever [of _ "toy_player bob 2 2893333340 (Some (toy_hash (1 # toy_salt))) 1"])
      (simp_all add: early6_def toy_arena_def toy_player_def)
  then show ?thesis by (simp add: early6_def toy_arena_def)
qed

section \<open>The attack returns on stats of the generated size\<close>

lemma checked_mul_ok: "x * y \<le> b \<Longrightarrow> checked_mul b x y = Inr (x * y)"
  by (simp add: checked_mul_def)

lemma checked_add_ok: "x + y \<le> b \<Longrightarrow> checked_add b x y = Inr (x + y)"
  by (simp add: checked_add_def)

lemma checked_div_ok: "y \<noteq> 0 \<Longrightarrow> checked_div x y = Inr (x div y)"
  by (simp add: checked_div_def)

lemma damage_returns:
  assumes lvl: "lvl \<le> 100" and atk: "atk \<le> 50" and dfc: "10 \<le> dfc"
    and p: "p \<le> 80" and r: "r \<le> 255"
  shows "\<exists>z. damage lvl atk dfc p r SCALING_FACTOR = Inr z \<and> z \<le> 338 * SCALING_FACTOR"
proof -
  let ?S = "SCALING_FACTOR"
  let ?lm = "2 * lvl * 1 div 5 + 2"
  let ?ad = "?S * atk div dfc"
  let ?res = "?lm * p * ?ad div 50 + 2 * ?S"
  let ?rv = "?S * r div 255"
  have S: "?S = 100000000" by (simp add: SCALING_FACTOR_def)
  have big: "338 * ?S * ?S \<le> u64_max" by (simp add: S u64_max_def)
  have lm: "?lm \<le> 42" using lvl by simp
  have "?ad \<le> ?S * atk div 10" using dfc by (intro div_le_mono2) simp_all
  also have "\<dots> \<le> ?S * 50 div 10" using atk by (intro div_le_mono mult_le_mono2)
  also have "\<dots> = 5 * ?S" by (simp add: S)
  finally have ad: "?ad \<le> 5 * ?S" .
  have lp: "?lm * p \<le> 42 * 80" using lm p by (rule mult_le_mono)
  have "?lm * p * ?ad \<le> (42 * 80) * (5 * ?S)" using lp ad by (rule mult_le_mono)
  then have lpa: "?lm * p * ?ad \<le> 16800 * ?S" by simp
  then have "?lm * p * ?ad div 50 \<le> 16800 * ?S div 50" by (rule div_le_mono)
  also have "\<dots> = 336 * ?S" by (simp add: S)
  finally have res: "?res \<le> 338 * ?S" by simp
  have "?rv \<le> ?S * 255 div 255" using r by (intro div_le_mono mult_le_mono2)
  then have rv: "?rv \<le> ?S" by simp
  have rr: "?res * ?rv \<le> 338 * ?S * ?S" using res rv by (rule mult_le_mono)
  have z: "?res * ?rv * 1 div ?S \<le> 338 * ?S"
  proof -
    have "?res * ?rv * 1 div ?S \<le> 338 * ?S * ?S div ?S" using rr by (intro div_le_mono) simp
    then show ?thesis by (simp add: S)
  qed
  have b1: "2 * lvl \<le> u64_max" "2 * lvl * 1 \<le> u64_max" "2 * lvl * 1 div 5 + 2 \<le> u64_max"
    using lvl by (simp_all add: u64_max_def)
  have b2: "?S * atk \<le> u64_max" using atk by (simp add: S u64_max_def)
  have b3: "?lm * p \<le> u64_max" using lp by (simp add: u64_max_def)
  have b4: "?lm * p * ?ad \<le> u64_max" using lpa by (simp add: S u64_max_def)
  have b5: "2 * ?S \<le> u64_max" by (simp add: S u64_max_def)
  have b6: "?lm * p * ?ad div 50 + 2 * ?S \<le> u64_max" using res by (simp add: S u64_max_def)
  have b7: "?S * r \<le> u64_max" using r by (simp add: S u64_max_def)
  have b8: "?res * ?rv \<le> u64_max" "?res * ?rv * 1 \<le> u64_max" using rr big by simp_all
  have n: "(5::nat) \<noteq> 0" "dfc \<noteq> 0" "(50::nat) \<noteq> 0" "(255::nat) \<noteq> 0" "?S \<noteq> 0"
    using dfc by (simp_all add: S)
  have "damage lvl atk dfc p r ?S = Inr (?res * ?rv * 1 div ?S)"
    unfolding damage_def
    by (simp only: checked_mul_ok checked_add_ok checked_div_ok and_then_Inr b1 b2 b3 b4 b5 b6
          b7 b8 n not_False_eq_True)
  with z show ?thesis by blast
qed

lemma moves_power_le: "mv < 3 \<Longrightarrow> 0 < MOVES_POWER ! mv \<and> MOVES_POWER ! mv \<le> 80"
  by (auto simp: MOVES_POWER_def less_Suc_eq numeral_3_eq_3)

lemma moves_effectiveness_le:
  "mv < 3 \<Longrightarrow> td < 3 \<Longrightarrow> length (MOVES_EFFECTIVENESS ! mv) = 3
     \<and> MOVES_EFFECTIVENESS ! mv ! td \<le> 20"
  by (auto simp: MOVES_EFFECTIVENESS_def less_Suc_eq numeral_3_eq_3)

lemma battle_attack_returns:
  assumes mv: "mv < 3" and rb: "217 \<le> rb" "rb \<le> 255"
    and lvl: "level attacker \<le> 100" and atk: "attack attacker \<le> 50"
    and dfc: "10 \<le> defence defender"
    and ta: "types attacker \<noteq> []" and td: "types defender \<noteq> []"
    and td3: "types defender ! 0 < 3"
  shows "\<exists>defender'. battle_attack attacker defender mv rb dbg = Inr defender'"
proof -
  let ?S = "SCALING_FACTOR"
  note mp = moves_power_le [OF mv]
  from damage_returns [OF lvl atk dfc conjunct2 [OF mp] rb(2)] obtain z where
       dz: "damage (level attacker) (attack attacker) (defence defender) (MOVES_POWER ! mv)
              rb ?S = Inr z"
   and z: "z \<le> 338 * ?S"
    by blast
  have pd: "physical_damage attacker defender (MOVES_POWER ! mv) rb = Inr z"
    using rb mp dz by (simp add: physical_damage_def)
  note me = moves_effectiveness_le [OF mv td3]
  let ?e = "MOVES_EFFECTIVENESS ! mv ! (types defender ! 0)"
  have S: "?S = 100000000" by (simp add: SCALING_FACTOR_def)
  have ze: "z * ?e \<le> (338 * ?S) * 20" using z me by (intro mult_le_mono) simp_all
  then have c1: "z * ?e \<le> u64_max" by (simp add: S u64_max_def)
  have "z * ?e div EFF_SCALING \<le> z * ?e" by (rule div_le_dividend)
  from this ze have zd: "z * ?e div EFF_SCALING \<le> (338 * ?S) * 20" by (rule le_trans)
  have "z * ?e div EFF_SCALING * STAB_BONUS \<le> ((338 * ?S) * 20) * 15"
    unfolding STAB_BONUS_def using zd by (intro mult_le_mono) simp_all
  then have c2: "z * ?e div EFF_SCALING * STAB_BONUS \<le> u64_max"
    by (simp add: S u64_max_def)
  have e0: "EFF_SCALING \<noteq> 0" by (simp add: EFF_SCALING_def)
  have b: "borrow (types attacker) 0 = Inr (types attacker ! 0)"
    "borrow (types defender) 0 = Inr (types defender ! 0)"
    "borrow MOVES_POWER mv = Inr (MOVES_POWER ! mv)"
    "borrow MOVES_EFFECTIVENESS mv = Inr (MOVES_EFFECTIVENESS ! mv)"
    "borrow (MOVES_EFFECTIVENESS ! mv) (types defender ! 0) = Inr ?e"
    using ta td mv td3 me
    by (simp_all add: borrow_def MOVES_POWER_def MOVES_EFFECTIVENESS_def)
  have "battle_attack attacker defender mv rb dbg
      = Inr (decrease_hp defender
          (if mv = types attacker ! 0 then z * ?e div EFF_SCALING * STAB_BONUS div EFF_SCALING
           else z * ?e div EFF_SCALING))"
  proof (cases "mv = types attacker ! 0")
    case True
    then have c: "(mv = types attacker ! 0) = True" by simp
    show ?thesis
      unfolding battle_attack_def
      by (simp only: c mv not_True_eq_False if_False if_True b and_then_Inr pd
            checked_mul_ok [OF c1] checked_mul_ok [OF c2] checked_div_ok [OF e0])
  next
    case False
    then have c: "(mv = types attacker ! 0) = False" by simp
    show ?thesis
      unfolding battle_attack_def
      by (simp only: c mv not_True_eq_False if_False b and_then_Inr pd
            checked_mul_ok [OF c1] checked_div_ok [OF e0])
  qed
  then show ?thesis by blast
qed

lemma generated_attack_returns:
  assumes "generate_stats sa = Inr attacker" and "generate_stats sd = Inr defender"
    and "mv < 3" and "217 \<le> rb" and "rb \<le> 255"
  shows "\<exists>defender'. battle_attack attacker defender mv rb dbg = Inr defender'"
proof -
  have la: "7 \<le> length sa"
    using assms(1) generate_stats_short [of sa] by (cases "7 \<le> length sa") simp_all
  have ld: "7 \<le> length sd"
    using assms(2) generate_stats_short [of sd] by (cases "7 \<le> length sd") simp_all
  have a: "level attacker = 10" "attack attacker = smooth (sa ! 1)" "types attacker \<noteq> []"
    using assms(1) unfolding generate_stats_value [OF la] by auto
  have d: "defence defender = smooth (sd ! 2)" "types defender = [sd ! 6 mod 3]"
    using assms(2) unfolding generate_stats_value [OF ld] by auto
  have "attack attacker \<le> 50" "10 \<le> defence defender"
    using smooth_bounds [of "sa ! 1"] smooth_bounds [of "sd ! 2"] a d by linarith+
  then show ?thesis
    using assms(3,4,5) a d by (intro battle_attack_returns) simp_all
qed

section \<open>The second reveal of a round that does not advance the round (claim C1)\<close>

lemma reachable_early5: "reachable toy_hash early5"
  by (rule reachable_run [OF reachable_early4 commit_early4])

text \<open>
  Claim C1. For every reachable arena and every successful reveal, the round increases,
  by exactly one, if and only if the reveal completes the pair of reveals of the round
  (the defender has revealed the round already), which the claim identifies with the
  defender having no pending commitment and a \<open>next_round\<close> of the round plus one; after
  a reveal by only one player the round is unchanged. The comments of \<open>reveal\<close> say the
  same: the last player to reveal bumps the round.

  The code does not do this in \<open>early5\<close>, an arena of the concrete game: the round is 0,
  Bob has revealed round 0 (his \<open>next_round\<close> is 1) and has committed again, Alice has
  committed and not revealed. Her reveal succeeds and is the second of round 0: both
  players have \<open>next_round\<close> 1 after it. The round is still 0, because
  \<open>next_round_cond\<close> asks that the defender hold no commitment. By \<open>early6_stalled\<close> the
  round then stays 0 for ever.
\<close>

theorem pair_completed_no_advance:
  "reachable toy_hash early5
   \<and> round early5 = 0
   \<and> next_round (player_one early5) = 0
   \<and> player_two early5
       = Some (toy_player bob 2 4200000000 (Some (toy_hash (1 # toy_salt))) 1)
   \<and> reveal toy_hash early5 0 toy_salt alice
       = Inr (early6, [PlayerReveal [9] 0, RoundResult [9] 1020235296 2893333340])
   \<and> next_round (player_one early6) = 1
   \<and> player_two early6
       = Some (toy_player bob 2 2893333340 (Some (toy_hash (1 # toy_salt))) 1)
   \<and> round early6 = 0"
proof -
  have r: "reveal toy_hash early5 0 toy_salt alice
       = Inr (early6, [PlayerReveal [9] 0, RoundResult [9] 1020235296 2893333340])"
    using reveal_early5 by simp
  show ?thesis
    using reachable_early5 r
    by (simp add: early5_def early6_def toy_arena_def toy_player_def)
qed

end
